theory Spec2Isabelle
  imports Main "HOL-Library.Char_ord" "HOL-Library.List_Lexorder" "HOL-Library.Sublist"
    "HOL-Library.AList" "HOL-Library.Multiset"
begin

section \<open>Strings and lexical paths\<close>

text \<open>
  A Go string is a sequence of bytes; it is modelled as a \<^typ>\<open>string\<close>, a list of 8-bit
  characters. \<open>len\<close>, slicing and comparison of Go strings work on bytes, and so do
  \<^const>\<open>length\<close>, \<^const>\<open>take\<close> and the lexicographic order on \<^typ>\<open>string\<close>.

  The package under verification (\<open>community\<close>) calls \<open>strings\<close> and \<open>path/filepath\<close>
  of the Go standard library. Their Unix behaviour is written out below, following the
  library's documentation and algorithms.
\<close>

definition HasPrefix :: "string \<Rightarrow> string \<Rightarrow> bool" where
  "HasPrefix s pre = (take (length pre) s = pre)"

definition HasSuffix :: "string \<Rightarrow> string \<Rightarrow> bool" where
  "HasSuffix s suf = (length suf \<le> length s \<and> drop (length s - length suf) s = suf)"

definition is_upper :: "char \<Rightarrow> bool" where
  "is_upper c = (CHR ''A'' \<le> c \<and> c \<le> CHR ''Z'')"

definition lower_byte :: "char \<Rightarrow> char" where
  "lower_byte c = (if is_upper c then char_of (of_char c + (32::nat)) else c)"

definition is_ascii :: "char \<Rightarrow> bool" where
  "is_ascii c = (of_char c < (128::nat))"

text \<open>
  \<open>strings.ToLower\<close>: a string of ASCII bytes only is lower-cased byte by byte; any other
  string is mapped rune by rune through the Unicode tables. The tables are not part of
  this development: \<open>U\<close> stands for \<open>strings.Map(unicode.ToLower, _)\<close>.
\<close>

definition ToLower :: "(string \<Rightarrow> string) \<Rightarrow> string \<Rightarrow> string" where
  "ToLower U s = (if list_all is_ascii s then map lower_byte s else U s)"

text \<open>
  \<open>strings.ReplaceAll(s, old, new)\<close> replaces the non-overlapping occurrences of \<open>old\<close>
  from left to right. The program calls it with one-byte patterns only; for the empty
  pattern (where Go inserts \<open>new\<close> at every rune boundary) the model returns \<open>s\<close>.
\<close>

function ReplaceAll :: "string \<Rightarrow> string \<Rightarrow> string \<Rightarrow> string" where
  "ReplaceAll s old new =
     (if old = [] \<or> s = [] then s
      else if HasPrefix s old then new @ ReplaceAll (drop (length old) s) old new
      else hd s # ReplaceAll (tl s) old new)"
  by pat_completeness auto
termination
  by (relation "measure (\<lambda>(s, old, new). length s)") auto

declare ReplaceAll.simps [simp del]

subsection \<open>Path elements\<close>

definition Separator :: char where
  "Separator = CHR ''/''"

text \<open>
  \<open>elems_acc w s\<close> scans \<open>s\<close> from the left with the bytes of the element read so far
  in \<open>w\<close> (reversed); \<open>elements s\<close> is the list of the non-empty runs between
  separators, which is how \<open>filepath.Clean\<close> reads a path.
\<close>

fun elems_acc :: "string \<Rightarrow> string \<Rightarrow> string list" where
  "elems_acc w [] = (if w = [] then [] else [rev w])"
| "elems_acc w (c # cs) =
     (if c = Separator
      then (if w = [] then elems_acc [] cs else rev w # elems_acc [] cs)
      else elems_acc (c # w) cs)"

definition elements :: "string \<Rightarrow> string list" where
  "elements s = elems_acc [] s"

fun join_elems :: "string list \<Rightarrow> string" where
  "join_elems [] = []"
| "join_elems [e] = e"
| "join_elems (e # es) = e @ Separator # join_elems es"

definition IsAbs :: "string \<Rightarrow> bool" where
  "IsAbs p = HasPrefix p [Separator]"

text \<open>
  \<open>filepath.Clean\<close>: \<open>norm_acc rooted st es\<close> processes the elements \<open>es\<close> in order with
  the elements kept so far in \<open>st\<close> (a stack, last kept element first). An element
  \<open>.\<close> is dropped; an element \<open>..\<close> removes the element before it, unless there is none
  or that one is itself \<open>..\<close>: then it is dropped in a rooted path and kept otherwise.
\<close>

fun norm_acc :: "bool \<Rightarrow> string list \<Rightarrow> string list \<Rightarrow> string list" where
  "norm_acc rooted st [] = rev st"
| "norm_acc rooted st (e # es) =
     (if e = ''.'' then norm_acc rooted st es
      else if e = ''..'' then
        (case st of
           [] \<Rightarrow> if rooted then norm_acc rooted [] es else norm_acc rooted [''..''] es
         | t # ts \<Rightarrow> if t = ''..'' then norm_acc rooted (''..'' # st) es
                     else norm_acc rooted ts es)
      else norm_acc rooted (e # st) es)"

definition Clean :: "string \<Rightarrow> string" where
  "Clean p =
     (let es = norm_acc (IsAbs p) [] (elements p)
      in if IsAbs p then Separator # join_elems es
         else if es = [] then ''.'' else join_elems es)"

text \<open>
  \<open>filepath.Join\<close>: empty leading arguments are ignored, the rest is joined with the
  separator and cleaned; with no non-empty argument the result is the empty string.
\<close>

fun Join :: "string list \<Rightarrow> string" where
  "Join [] = []"
| "Join (e # es) = (if e = [] then Join es else Clean (join_elems (e # es)))"

text \<open>\<open>filepath.Dir\<close>: everything up to the last separator, cleaned.\<close>

definition Dir :: "string \<Rightarrow> string" where
  "Dir p = Clean (rev (dropWhile (\<lambda>c. c \<noteq> Separator) (rev p)))"

text \<open>
  \<open>filepath.Rel(base, targ)\<close>: both paths are cleaned; equal paths give \<open>.\<close>; a rooted
  and an unrooted path cannot be related; otherwise the common leading elements are
  removed, one \<open>..\<close> is written for every element left of the base (which fails when
  the first of them is \<open>..\<close> and differs from an element of the target), followed by
  what is left of the target.
\<close>

fun strip_common :: "string list \<Rightarrow> string list \<Rightarrow> string list \<times> string list" where
  "strip_common (b # bs) (t # ts) =
     (if b = t then strip_common bs ts else (b # bs, t # ts))"
| "strip_common bs ts = (bs, ts)"

definition clean_elems :: "string \<Rightarrow> string list" where
  "clean_elems p = (if Clean p = ''.'' then [] else elements (Clean p))"

definition Rel :: "string \<Rightarrow> string \<Rightarrow> string option" where
  "Rel basepath targpath =
     (if Clean targpath = Clean basepath then Some ''.''
      else if IsAbs (Clean basepath) \<noteq> IsAbs (Clean targpath) then None
      else (case strip_common (clean_elems basepath) (clean_elems targpath) of
              (bs, ts) \<Rightarrow>
                if bs \<noteq> [] \<and> ts \<noteq> [] \<and> hd bs = ''..'' then None
                else Some (join_elems (replicate (length bs) ''..'' @ ts))))"


section \<open>The process environment and the file system\<close>

text \<open>
  \<open>cwd\<close> holds the elements of the working directory, \<open>None\<close> when \<open>os.Getwd\<close> fails;
  \<open>unicode_lower\<close> is the Unicode part of \<open>strings.ToLower\<close>.
\<close>

record env =
  cwd :: "string list option"
  unicode_lower :: "string \<Rightarrow> string"

datatype os_error = ENOENT | ENOTDIR | EISDIR | EGETWD

definition IsNotExist :: "os_error \<Rightarrow> bool" where
  "IsNotExist oe = (oe = ENOENT)"

definition path_of :: "string list \<Rightarrow> string" where
  "path_of cs = Separator # join_elems cs"

definition Getwd :: "env \<Rightarrow> os_error + string" where
  "Getwd e = (case cwd e of None \<Rightarrow> Inl EGETWD | Some w \<Rightarrow> Inr (path_of w))"

text \<open>\<open>filepath.Abs\<close> on Unix.\<close>

definition Abs :: "env \<Rightarrow> string \<Rightarrow> os_error + string" where
  "Abs e p =
     (if IsAbs p then Inr (Clean p)
      else (case Getwd e of Inl oe \<Rightarrow> Inl oe | Inr wd \<Rightarrow> Inr (Join [wd, p])))"

subsection \<open>Records of the community package\<close>

text \<open>
  The structs \<open>Reply\<close>, \<open>Topic\<close>, \<open>SeedTopic\<close> and \<open>Config\<close>. Field names of
  different records must differ in Isabelle, so the fields of \<open>Reply\<close> and of
  \<open>SeedTopic\<close> carry a prefix. Go's \<open>int\<close> is an \<^typ>\<open>int\<close>: the package stores and
  copies the vote counters and never computes with them.
\<close>

record Reply =
  ReplyAuthor :: string
  Content :: string
  ReplyTimestamp :: string

record Topic =
  Title :: string
  Body :: string
  Author :: string
  Upvotes :: int
  Downvotes :: int
  Timestamp :: string
  Tags :: "string list"
  Replies :: "Reply list"
  Filename :: string

record SeedTopic =
  SeedTitle :: string
  SeedBody :: string
  SeedAuthor :: string
  SeedTags :: "string list"

record Config =
  Domain :: string
  ConfigTags :: "string list"
  SeedTopics :: "SeedTopic list"

subsection \<open>Files\<close>

text \<open>
  The program reads a file only through \<open>json.NewDecoder(file).Decode\<close>, into a
  \<open>Topic\<close> or into a \<open>Config\<close>. The bytes of a file are therefore represented by
  what the two decoders make of them: \<open>as_topic\<close> is the decoded \<open>Topic\<close> (\<open>None\<close>
  when \<open>Decode\<close> returns an error) and \<open>as_config\<close> the decoded \<open>Config\<close>.
  \<open>Filename\<close> carries the tag \<open>json:"-"\<close>: it is never written and never read.
  \<open>MarshalIndent\<close> gives the document that decodes to the topic it was given (strings
  are taken to be valid UTF-8, which \<open>encoding/json\<close> writes and reads back unchanged);
  read as a \<open>Config\<close>, that document has the key \<open>tags\<close> only.
\<close>

record fdata =
  as_topic :: "Topic option"
  as_config :: "Config option"

definition MarshalIndent :: "Topic \<Rightarrow> fdata" where
  "MarshalIndent topic =
     \<lparr>as_topic = Some (topic\<lparr>Filename := []\<rparr>),
      as_config = Some \<lparr>Domain = [], ConfigTags = Tags topic, SeedTopics = []\<rparr>\<rparr>"

text \<open>
  The file system is a table from absolute paths, given by their elements, to nodes.
  The root directory \<open>[]\<close> always exists. There are no symbolic links and no
  permissions, so a path is resolved lexically.
\<close>

datatype node = File fdata | Directory

type_synonym fs = "(string list \<times> node) list"

definition node_at :: "fs \<Rightarrow> string list \<Rightarrow> node option" where
  "node_at f cs = (if cs = [] then Some Directory else map_of f cs)"

definition is_file :: "fs \<Rightarrow> string list \<Rightarrow> bool" where
  "is_file f cs = (case node_at f cs of Some (File d) \<Rightarrow> True | _ \<Rightarrow> False)"

definition os_path :: "env \<Rightarrow> string \<Rightarrow> string list option" where
  "os_path e p =
     (if p = [] then None
      else if IsAbs p then Some (elements (Clean p))
      else (case cwd e of
              None \<Rightarrow> None
            | Some w \<Rightarrow> Some (elements (Clean (path_of w @ Separator # p)))))"

text \<open>\<open>os.Lstat\<close>: a missing node is \<open>ENOTDIR\<close> when the path runs through a file.\<close>

definition os_stat :: "fs \<Rightarrow> string list \<Rightarrow> os_error + node" where
  "os_stat f cs =
     (case node_at f cs of
        Some n \<Rightarrow> Inr n
      | None \<Rightarrow> Inl (if list_ex (is_file f) (prefixes cs) then ENOTDIR else ENOENT))"

text \<open>\<open>os.MkdirAll\<close>: fails when the path or one of its ancestors is a file, and creates
  every missing directory on the path otherwise.\<close>

definition mkdir_missing :: "string list \<Rightarrow> fs \<Rightarrow> fs" where
  "mkdir_missing q f = (if node_at f q = None then AList.update q Directory f else f)"

definition os_mkdir_all :: "env \<Rightarrow> fs \<Rightarrow> string \<Rightarrow> os_error + fs" where
  "os_mkdir_all e f p =
     (case os_path e p of
        None \<Rightarrow> Inl ENOENT
      | Some cs \<Rightarrow>
          if list_ex (is_file f) (prefixes cs) then Inl ENOTDIR
          else Inr (fold mkdir_missing (prefixes cs) f))"

text \<open>\<open>os.WriteFile\<close>: creates or truncates the file; the parent must be a directory and
  the target must not be one.\<close>

definition os_write_file :: "env \<Rightarrow> fs \<Rightarrow> string \<Rightarrow> fdata \<Rightarrow> os_error + fs" where
  "os_write_file e f p d =
     (case os_path e p of
        None \<Rightarrow> Inl ENOENT
      | Some cs \<Rightarrow>
          if cs = [] then Inl EISDIR
          else (case os_stat f (butlast cs) of
                  Inl oe \<Rightarrow> Inl oe
                | Inr (File x) \<Rightarrow> Inl ENOTDIR
                | Inr Directory \<Rightarrow>
                    (case node_at f cs of
                       Some Directory \<Rightarrow> Inl EISDIR
                     | _ \<Rightarrow> Inr (AList.update cs (File d) f))))"

text \<open>
  \<open>os.Rename\<close> of a regular file: the file replaces a file at the new path, and cannot
  replace a directory. The program renames only the temporary file it has just
  written; renaming a directory is not modelled and is reported as an error.
\<close>

definition os_rename :: "env \<Rightarrow> fs \<Rightarrow> string \<Rightarrow> string \<Rightarrow> os_error + fs" where
  "os_rename e f oldpath newpath =
     (case (os_path e oldpath, os_path e newpath) of
        (Some old, Some new) \<Rightarrow>
          (case os_stat f old of
             Inl oe \<Rightarrow> Inl oe
           | Inr Directory \<Rightarrow> Inl EISDIR
           | Inr (File d) \<Rightarrow>
               if new = [] then Inl EISDIR
               else (case os_stat f (butlast new) of
                       Inl oe \<Rightarrow> Inl oe
                     | Inr (File x) \<Rightarrow> Inl ENOTDIR
                     | Inr Directory \<Rightarrow>
                         (case node_at f new of
                            Some Directory \<Rightarrow> Inl EISDIR
                          | _ \<Rightarrow> Inr (AList.update new (File d) (AList.delete old f)))))
      | _ \<Rightarrow> Inl ENOENT)"

text \<open>\<open>os.ReadDir\<close>: the names in a directory, sorted.\<close>

definition os_read_dir :: "env \<Rightarrow> fs \<Rightarrow> string \<Rightarrow> os_error + string list" where
  "os_read_dir e f p =
     (case os_path e p of
        None \<Rightarrow> Inl ENOENT
      | Some cs \<Rightarrow>
          (case os_stat f cs of
             Inl oe \<Rightarrow> Inl oe
           | Inr (File x) \<Rightarrow> Inl ENOTDIR
           | Inr Directory \<Rightarrow>
               Inr (sort (map last
                      (filter (\<lambda>q. q \<noteq> [] \<and> butlast q = cs) (remdups (map fst f)))))))"


text \<open>
  \<open>filepath.WalkDir(root, fn)\<close> calls \<open>fn\<close> on the root and on everything below it, a
  directory before its contents and the names of one directory in sorted order: that is
  the lexicographic order of the element lists. An entry is the path handed to \<open>fn\<close>
  (the root as given, below it \<open>Join\<close> of the root and the names), the name of the node
  and whether it is a directory. The callback of this program never returns an error
  or \<open>SkipDir\<close> for an entry it is given, so the walk fails only when the root cannot be
  examined.
\<close>

type_synonym dir_entry = "string \<times> string \<times> bool"

definition reachable :: "fs \<Rightarrow> string list \<Rightarrow> string list \<Rightarrow> bool" where
  "reachable f rc q =
     list_all (\<lambda>a. length a < length rc \<or> a = q \<or> node_at f a = Some Directory) (prefixes q)"

definition walk_nodes :: "fs \<Rightarrow> string list \<Rightarrow> string list list" where
  "walk_nodes f rc =
     sort (filter (\<lambda>q. prefix rc q \<and> reachable f rc q) (remdups (rc # map fst f)))"

definition walk_entry :: "fs \<Rightarrow> string \<Rightarrow> string list \<Rightarrow> string list \<Rightarrow> dir_entry" where
  "walk_entry f root rc q =
     (if q = rc then root else Join [root, join_elems (drop (length rc) q)],
      if q = [] then [Separator] else last q,
      node_at f q = Some Directory)"

definition WalkDir :: "env \<Rightarrow> fs \<Rightarrow> string \<Rightarrow> os_error + dir_entry list" where
  "WalkDir e f root =
     (case os_path e root of
        None \<Rightarrow> Inl ENOENT
      | Some rc \<Rightarrow>
          (case os_stat f rc of
             Inl oe \<Rightarrow> Inl oe
           | Inr n \<Rightarrow> Inr (map (walk_entry f root rc) (walk_nodes f rc))))"

text \<open>
  \<open>sort.Slice\<close> is the insertion sort of the Go library (the one it runs on slices of
  at most twelve elements; on longer slices it runs a pattern-defeating quicksort,
  with the same result whenever no two elements compare equal). \<open>sift lt x ys\<close>
  moves \<open>x\<close> down the sorted prefix, whose last element is the head of \<open>ys\<close>.
\<close>

fun sift :: "('a \<Rightarrow> 'a \<Rightarrow> bool) \<Rightarrow> 'a \<Rightarrow> 'a list \<Rightarrow> 'a list" where
  "sift lt x [] = [x]"
| "sift lt x (y # ys) = (if lt x y then y # sift lt x ys else x # y # ys)"

definition sort_slice :: "('a \<Rightarrow> 'a \<Rightarrow> bool) \<Rightarrow> 'a list \<Rightarrow> 'a list" where
  "sort_slice lt xs = rev (foldl (\<lambda>acc x. sift lt x acc) [] xs)"

section \<open>The community package\<close>

datatype error =
    ResolveCommunityDir os_error
  | WalkCommunityDir os_error
  | OpenTopicFile os_error
  | DecodeTopicJSON
  | CreateCommunityDir os_error
  | CreateTopicDir os_error
  | WriteTempFile os_error
  | RenameTempFile os_error
  | TopicNotFound string
  | InvalidTopicPath string
  | ReadCommunityDir os_error
  | OpenConfigFile os_error
  | DecodeConfigJSON
  | LoadingConfig error
  | SavingSeedTopic error

text \<open>\<open>loadTopic\<close>: opening a directory succeeds in Go and the decoder then fails to read.\<close>

definition loadTopic :: "env \<Rightarrow> fs \<Rightarrow> string \<Rightarrow> error + Topic" where
  "loadTopic e f path =
     (case os_path e path of
        None \<Rightarrow> Inl (OpenTopicFile ENOENT)
      | Some cs \<Rightarrow>
          (case os_stat f cs of
             Inl oe \<Rightarrow> Inl (OpenTopicFile oe)
           | Inr Directory \<Rightarrow> Inl DecodeTopicJSON
           | Inr (File d) \<Rightarrow>
               (case as_topic d of
                  None \<Rightarrow> Inl DecodeTopicJSON
                | Some topic \<Rightarrow> Inr (topic\<lparr>Filename := path\<rparr>))))"

definition loadConfig :: "env \<Rightarrow> fs \<Rightarrow> string \<Rightarrow> error + Config" where
  "loadConfig e f path =
     (case os_path e path of
        None \<Rightarrow> Inl (OpenConfigFile ENOENT)
      | Some cs \<Rightarrow>
          (case os_stat f cs of
             Inl oe \<Rightarrow> Inl (OpenConfigFile oe)
           | Inr Directory \<Rightarrow> Inl DecodeConfigJSON
           | Inr (File d) \<Rightarrow>
               (case as_config d of
                  None \<Rightarrow> Inl DecodeConfigJSON
                | Some config \<Rightarrow> Inr config)))"

text \<open>The callback that \<open>LoadTopics\<close> hands to \<open>WalkDir\<close>, with the slice \<open>topics\<close> it
  appends to.\<close>

definition visit :: "env \<Rightarrow> fs \<Rightarrow> string \<Rightarrow> Topic list \<Rightarrow> dir_entry \<Rightarrow> Topic list" where
  "visit e f absDir topics d =
     (case d of (path, name, isdir) \<Rightarrow>
        if isdir then topics
        else if \<not> HasSuffix (ToLower (unicode_lower e) name) ''.json'' then topics
        else (case loadTopic e f path of
                Inl err \<Rightarrow> topics
              | Inr topic \<Rightarrow>
                  topics @ [case Rel absDir path of
                              Some rel \<Rightarrow> topic\<lparr>Filename := rel\<rparr>
                            | None \<Rightarrow> topic]))"

definition LoadTopics :: "env \<Rightarrow> fs \<Rightarrow> string \<Rightarrow> error + Topic list" where
  "LoadTopics e f dir =
     (case Abs e dir of
        Inl oe \<Rightarrow> Inl (ResolveCommunityDir oe)
      | Inr absDir \<Rightarrow>
          (case WalkDir e f absDir of
             Inl oe \<Rightarrow> if IsNotExist oe then Inr [] else Inl (WalkCommunityDir oe)
           | Inr entries \<Rightarrow>
               Inr (sort_slice (\<lambda>a b. Timestamp a > Timestamp b)
                      (foldl (visit e f absDir) [] entries))))"

definition LoadRecentTopics :: "env \<Rightarrow> fs \<Rightarrow> string \<Rightarrow> int \<Rightarrow> error + Topic list" where
  "LoadRecentTopics e f dir limit =
     (case LoadTopics e f dir of
        Inl err \<Rightarrow> Inl err
      | Inr topics \<Rightarrow>
          Inr (if limit > 0 \<and> int (length topics) > limit
               then take (nat limit) topics else topics))"


subsection \<open>SaveTopic\<close>

definition min_int :: "nat \<Rightarrow> nat \<Rightarrow> nat" where
  "min_int a b = (if a < b then a else b)"

text \<open>The file name that \<open>SaveTopic\<close> generates from the title.\<close>

definition generated_filename :: "env \<Rightarrow> string \<Rightarrow> string" where
  "generated_filename e title =
     (let filename = ReplaceAll (ToLower (unicode_lower e) title) '' '' ''_'';
          filename = ReplaceAll filename [CHR 0x27] []
      in take (min_int 50 (length filename)) filename @ ''.json'')"

text \<open>
  The branch of \<open>SaveTopic\<close> that chooses \<open>path\<close>: the file the topic was loaded from,
  or (after creating the community directory) the generated name under it.
\<close>

definition choose_path :: "env \<Rightarrow> fs \<Rightarrow> Topic \<Rightarrow> string \<Rightarrow> error + fs \<times> string" where
  "choose_path e f topic absDir =
     (if Filename topic \<noteq> [] then
        Inr (f, if \<not> IsAbs (Filename topic) then Join [absDir, Filename topic]
                else Filename topic)
      else (case os_mkdir_all e f absDir of
              Inl oe \<Rightarrow> Inl (CreateCommunityDir oe)
            | Inr f1 \<Rightarrow> Inr (f1, Join [absDir, generated_filename e (Title topic)])))"

text \<open>
  \<open>SaveTopic\<close> receives the \<open>Topic\<close> by value. \<open>SaveTopic_local\<close> returns the file
  system, the error and the value of the function's own variable \<open>topic\<close> at the
  return; \<open>SaveTopic\<close> returns what Go returns: the error, next to the file system the
  call leaves behind. \<open>json.MarshalIndent\<close> cannot fail on a \<open>Topic\<close>.
\<close>

definition SaveTopic_local :: "env \<Rightarrow> fs \<Rightarrow> Topic \<Rightarrow> string \<Rightarrow> fs \<times> error option \<times> Topic" where
  "SaveTopic_local e f topic dir =
     (case Abs e dir of
        Inl oe \<Rightarrow> (f, Some (ResolveCommunityDir oe), topic)
      | Inr absDir \<Rightarrow>
          (case choose_path e f topic absDir of
             Inl err \<Rightarrow> (f, Some err, topic)
           | Inr (f1, path) \<Rightarrow>
               (case os_mkdir_all e f1 (Dir path) of
                  Inl oe \<Rightarrow> (f1, Some (CreateTopicDir oe), topic)
                | Inr f2 \<Rightarrow>
                    (let data = MarshalIndent topic; tempFile = path @ ''.tmp''
                     in case os_write_file e f2 tempFile data of
                          Inl oe \<Rightarrow> (f2, Some (WriteTempFile oe), topic)
                        | Inr f3 \<Rightarrow>
                            (case os_rename e f3 tempFile path of
                               Inl oe \<Rightarrow> (f3, Some (RenameTempFile oe), topic)
                             | Inr f4 \<Rightarrow>
                                 (f4, None,
                                  topic\<lparr>Filename :=
                                    (case Rel absDir path of
                                       Some rel \<Rightarrow> rel
                                     | None \<Rightarrow> path)\<rparr>))))))"

definition SaveTopic :: "env \<Rightarrow> fs \<Rightarrow> Topic \<Rightarrow> string \<Rightarrow> fs \<times> error option" where
  "SaveTopic e f topic dir =
     (case SaveTopic_local e f topic dir of (f', err, local_topic) \<Rightarrow> (f', err))"

text \<open>
  A caller that holds a \<open>Topic\<close> in a variable, calls \<open>SaveTopic\<close> on it and then reads
  the variable's \<open>Filename\<close>, as in \<open>err := SaveTopic(topic, dir); topic.Filename\<close>.
\<close>

definition save_then_read_Filename ::
    "env \<Rightarrow> fs \<Rightarrow> Topic \<Rightarrow> string \<Rightarrow> fs \<times> error option \<times> string" where
  "save_then_read_Filename e f topic dir =
     (case SaveTopic e f topic dir of (f', err) \<Rightarrow> (f', err, Filename topic))"

subsection \<open>AddReplyToTopic, LoadTopicByRelativePath, InitializeIfEmpty\<close>

fun reply_loop ::
    "env \<Rightarrow> fs \<Rightarrow> string \<Rightarrow> Reply \<Rightarrow> string \<Rightarrow> Topic list \<Rightarrow> fs \<times> error option" where
  "reply_loop e f topicTitle reply dir [] = (f, Some (TopicNotFound topicTitle))"
| "reply_loop e f topicTitle reply dir (topic # topics) =
     (if Title topic = topicTitle
      then SaveTopic e f (topic\<lparr>Replies := Replies topic @ [reply]\<rparr>) dir
      else reply_loop e f topicTitle reply dir topics)"

definition AddReplyToTopic ::
    "env \<Rightarrow> fs \<Rightarrow> string \<Rightarrow> Reply \<Rightarrow> string \<Rightarrow> fs \<times> error option" where
  "AddReplyToTopic e f topicTitle reply dir =
     (case LoadTopics e f dir of
        Inl err \<Rightarrow> (f, Some err)
      | Inr topics \<Rightarrow> reply_loop e f topicTitle reply dir topics)"

definition LoadTopicByRelativePath :: "env \<Rightarrow> fs \<Rightarrow> string \<Rightarrow> string \<Rightarrow> error + Topic" where
  "LoadTopicByRelativePath e f dir relPath =
     (case Abs e dir of
        Inl oe \<Rightarrow> Inl (ResolveCommunityDir oe)
      | Inr absDir \<Rightarrow>
          (let clean = Clean relPath
           in if HasPrefix clean ''..'' then Inl (InvalidTopicPath relPath)
              else (let path = Join [absDir, clean]
                    in case loadTopic e f path of
                         Inl err \<Rightarrow> Inl err
                       | Inr topic \<Rightarrow>
                           Inr (case Rel absDir path of
                                  Some rel \<Rightarrow> topic\<lparr>Filename := rel\<rparr>
                                | None \<Rightarrow> topic))))"

text \<open>
  The part of \<open>LoadTopicByRelativePath\<close> before the file is opened: the path it is
  about to open, or the error it returns instead.
\<close>

definition resolve :: "env \<Rightarrow> string \<Rightarrow> string \<Rightarrow> error + string" where
  "resolve e dir relPath =
     (case Abs e dir of
        Inl oe \<Rightarrow> Inl (ResolveCommunityDir oe)
      | Inr absDir \<Rightarrow>
          (let clean = Clean relPath
           in if HasPrefix clean ''..'' then Inl (InvalidTopicPath relPath)
              else Inr (Join [absDir, clean])))"

text \<open>
  The loop of \<open>InitializeIfEmpty\<close> over the seed topics. \<open>clock i\<close> is the value of
  \<open>time.Now().Format(time.RFC3339)\<close> at the \<open>i\<close>-th reading of the clock. Printing to
  the standard output is left out.
\<close>

definition seed_topic :: "string \<Rightarrow> SeedTopic \<Rightarrow> Topic" where
  "seed_topic now seed =
     \<lparr>Title = SeedTitle seed, Body = SeedBody seed, Author = SeedAuthor seed,
      Upvotes = 0, Downvotes = 0, Timestamp = now, Tags = SeedTags seed,
      Replies = [], Filename = []\<rparr>"

fun seed_loop ::
    "env \<Rightarrow> (nat \<Rightarrow> string) \<Rightarrow> nat \<Rightarrow> fs \<Rightarrow> SeedTopic list \<Rightarrow> fs \<times> error option" where
  "seed_loop e clock i f [] = (f, None)"
| "seed_loop e clock i f (seed # seeds) =
     (case SaveTopic e f (seed_topic (clock i) seed) ''data/community'' of
        (f', Some err) \<Rightarrow> (f', Some (SavingSeedTopic err))
      | (f', None) \<Rightarrow> seed_loop e clock (Suc i) f' seeds)"

definition InitializeIfEmpty ::
    "env \<Rightarrow> (nat \<Rightarrow> string) \<Rightarrow> fs \<Rightarrow> string \<Rightarrow> fs \<times> error option" where
  "InitializeIfEmpty e clock f configPath =
     (let listing = os_read_dir e f ''data/community'';
          files = (case listing of Inl oe \<Rightarrow> [] | Inr names \<Rightarrow> names);
          created = (case listing of
                       Inr names \<Rightarrow> Inr f
                     | Inl oe \<Rightarrow>
                         if IsNotExist oe then
                           (case os_mkdir_all e f ''data/community'' of
                              Inl oe' \<Rightarrow> Inl (CreateCommunityDir oe')
                            | Inr f1 \<Rightarrow> Inr f1)
                         else Inl (ReadCommunityDir oe))
      in case created of
           Inl err \<Rightarrow> (f, Some err)
         | Inr f1 \<Rightarrow>
             if length files > 0 then (f1, None)
             else (case loadConfig e f1 configPath of
                     Inl err \<Rightarrow> (f1, Some (LoadingConfig err))
                   | Inr config \<Rightarrow> seed_loop e clock 0 f1 (SeedTopics config)))"


section \<open>Well-formed names and example states\<close>

text \<open>
  A name of a directory entry is not empty, holds no separator and is neither \<open>.\<close>
  nor \<open>..\<close>. In a file system (\<open>fs_ok\<close>) every element of every path is such a name
  and everything above a node is a directory.
\<close>

definition valid_name :: "string \<Rightarrow> bool" where
  "valid_name n = (n \<noteq> [] \<and> Separator \<notin> set n \<and> n \<noteq> ''.'' \<and> n \<noteq> ''..'')"

definition fs_ok :: "fs \<Rightarrow> bool" where
  "fs_ok f =
     list_all (\<lambda>kv. list_all valid_name (fst kv) \<and>
                    list_all (\<lambda>q. q = fst kv \<or> node_at f q = Some Directory) (prefixes (fst kv))) f"

text \<open>
  \<open>under_root root p\<close>: \<open>p\<close> is an absolute path in clean form (so it has no element \<open>..\<close>)
  that runs through \<open>root\<close>: it names \<open>root\<close> or something below it.
\<close>

definition under_root :: "string \<Rightarrow> string \<Rightarrow> bool" where
  "under_root root p = (IsAbs p \<and> Clean p = p \<and> prefix (elements root) (elements p))"

text \<open>A process running in \<open>/srv\<close>, and some topics and file systems to run it on.\<close>

definition env0 :: env where
  "env0 = \<lparr>cwd = Some [''srv''], unicode_lower = (\<lambda>s. s)\<rparr>"

definition topic0 :: "string \<Rightarrow> string \<Rightarrow> Topic" where
  "topic0 title stamp =
     \<lparr>Title = title, Body = ''body'', Author = ''seed'', Upvotes = 0, Downvotes = 0,
      Timestamp = stamp, Tags = [], Replies = [], Filename = []\<rparr>"

definition fs_empty :: fs where
  "fs_empty = [([''srv''], Directory)]"

definition fs_dots :: fs where
  "fs_dots =
     [([''srv''], Directory), ([''srv'', ''data''], Directory),
      ([''srv'', ''data'', ''community''], Directory),
      ([''srv'', ''data'', ''community'', ''..topic.json''],
         File (MarshalIndent (topic0 ''Dots'' ''2024-01-01T00:00:00Z'')))]"

definition garbage :: fdata where
  "garbage = \<lparr>as_topic = None, as_config = None\<rparr>"

definition fs_two :: fs where
  "fs_two =
     [([''srv''], Directory), ([''srv'', ''data''], Directory),
      ([''srv'', ''data'', ''community''], Directory),
      ([''srv'', ''data'', ''community'', ''bad.json''], File garbage),
      ([''srv'', ''data'', ''community'', ''good.json''],
         File (MarshalIndent (topic0 ''Good'' ''2024-01-02T00:00:00Z'')))]"

definition fs_three :: fs where
  "fs_three =
     [([''srv''], Directory), ([''srv'', ''data''], Directory),
      ([''srv'', ''data'', ''community''], Directory),
      ([''srv'', ''data'', ''community'', ''a.json''],
         File (MarshalIndent (topic0 ''A'' ''2024-01-01T00:00:00Z''))),
      ([''srv'', ''data'', ''community'', ''b.JSON''],
         File (MarshalIndent (topic0 ''B'' ''2024-01-03T00:00:00Z''))),
      ([''srv'', ''data'', ''community'', ''notes.txt''], File garbage),
      ([''srv'', ''data'', ''community'', ''sub''], Directory),
      ([''srv'', ''data'', ''community'', ''sub'', ''c.json''],
         File (MarshalIndent (topic0 ''C'' ''2024-01-02T00:00:00Z'')))]"

text \<open>An entry of the walk that the callback of \<open>LoadTopics\<close> tries to load: a file
  whose lower-cased name ends in \<open>.json\<close>.\<close>

definition record_entry :: "env \<Rightarrow> dir_entry \<Rightarrow> bool" where
  "record_entry e d =
     (case d of (path, name, isdir) \<Rightarrow>
        \<not> isdir \<and> HasSuffix (ToLower (unicode_lower e) name) ''.json'')"

definition fs_hello :: fs where
  "fs_hello =
     [([''srv''], Directory), ([''srv'', ''data''], Directory),
      ([''srv'', ''data'', ''community''], Directory),
      ([''srv'', ''data'', ''community'', ''hello.json''],
         File (MarshalIndent (topic0 ''Hello'' ''2024-01-01T00:00:00Z'')))]"

text \<open>
  The file name as the specification words it: the lower-cased title with every space
  replaced by an underscore and every apostrophe removed, cut to 50 bytes, followed
  by the extension.
\<close>

definition spec_file_name :: "string \<Rightarrow> string" where
  "spec_file_name lowered =
     take 50 (filter (\<lambda>c. c \<noteq> CHR 0x27)
                (map (\<lambda>c. if c = CHR '' '' then CHR ''_'' else c) lowered)) @ ''.json''"

definition fs_ab :: fs where
  "fs_ab =
     [([''srv''], Directory), ([''srv'', ''data''], Directory),
      ([''srv'', ''data'', ''community''], Directory),
      ([''srv'', ''data'', ''community'', ''a''], Directory),
      ([''srv'', ''data'', ''community'', ''a'', ''b.json''],
         File (MarshalIndent (topic0 ''a/b'' ''2024-01-01T00:00:00Z'')))]"

definition fs_test :: fs where
  "fs_test =
     [([''srv''], Directory), ([''srv'', ''data''], Directory),
      ([''srv'', ''data'', ''community''], Directory),
      ([''srv'', ''data'', ''community'', ''its_a_test.json''],
         File (MarshalIndent (topic0 ''It's A Test'' ''2024-01-01T00:00:00Z'')))]"




text \<open>The name, relative to the store root, of the node \<open>vs\<close> below the root.\<close>

definition rel_name :: "string list \<Rightarrow> string" where
  "rel_name vs = (if vs = [] then ''.'' else join_elems vs)"

definition reply0 :: Reply where
  "reply0 = \<lparr>ReplyAuthor = ''a'', Content = ''c'', ReplyTimestamp = ''2024-01-01T00:00:00Z''\<rparr>"

definition fs_three_replied :: fs where
  "fs_three_replied =
     [([''srv''], Directory), ([''srv'', ''data''], Directory),
      ([''srv'', ''data'', ''community''], Directory),
      ([''srv'', ''data'', ''community'', ''a.json''],
         File (MarshalIndent (topic0 ''A'' ''2024-01-01T00:00:00Z''))),
      ([''srv'', ''data'', ''community'', ''b.JSON''],
         File (MarshalIndent (topic0 ''B'' ''2024-01-03T00:00:00Z''))),
      ([''srv'', ''data'', ''community'', ''notes.txt''], File garbage),
      ([''srv'', ''data'', ''community'', ''sub''], Directory),
      ([''srv'', ''data'', ''community'', ''sub'', ''c.json''],
         File (MarshalIndent ((topic0 ''C'' ''2024-01-02T00:00:00Z'')\<lparr>Replies := [reply0]\<rparr>)))]"

text \<open>The file name generated for a seed topic; a configuration file as the decoders
  read it; seed data and stores for the examples.\<close>

definition seed_name :: "env \<Rightarrow> SeedTopic \<Rightarrow> string" where
  "seed_name e seed = generated_filename e (SeedTitle seed)"

definition config_file :: "Config \<Rightarrow> fdata" where
  "config_file config =
     \<lparr>as_topic = Some \<lparr>Title = [], Body = [], Author = [], Upvotes = 0, Downvotes = 0,
                       Timestamp = [], Tags = ConfigTags config, Replies = [], Filename = []\<rparr>,
      as_config = Some config\<rparr>"

definition seed0 :: "string \<Rightarrow> SeedTopic" where
  "seed0 title = \<lparr>SeedTitle = title, SeedBody = ''body'', SeedAuthor = ''seed'', SeedTags = [''ethics'']\<rparr>"

definition cfg_two :: Config where
  "cfg_two = \<lparr>Domain = ''philosophy'', ConfigTags = [''ethics''],
              SeedTopics = [seed0 ''Free Will'', seed0 ''What is Truth'']\<rparr>"

definition cfg_dup :: Config where
  "cfg_dup = \<lparr>Domain = ''philosophy'', ConfigTags = [''ethics''],
              SeedTopics = [seed0 ''Welcome'', seed0 ''welcome'']\<rparr>"

definition clock0 :: "nat \<Rightarrow> string" where
  "clock0 i = ''2024-01-01T00:00:00Z''"

definition fs_cfg :: "Config \<Rightarrow> fs" where
  "fs_cfg config =
     [([''srv''], Directory), ([''srv'', ''data''], Directory),
      ([''srv'', ''data'', ''config.json''], File (config_file config))]"

definition fs_seeded :: fs where
  "fs_seeded =
     [([''srv''], Directory), ([''srv'', ''data''], Directory),
      ([''srv'', ''data'', ''config.json''], File (config_file cfg_two)),
      ([''srv'', ''data'', ''community''], Directory),
      ([''srv'', ''data'', ''community'', ''free_will.json''],
         File (MarshalIndent (seed_topic ''2024-01-01T00:00:00Z'' (seed0 ''Free Will'')))),
      ([''srv'', ''data'', ''community'', ''what_is_truth.json''],
         File (MarshalIndent (seed_topic ''2024-01-01T00:00:00Z'' (seed0 ''What is Truth''))))]"

definition fs_dup_seeded :: fs where
  "fs_dup_seeded =
     [([''srv''], Directory), ([''srv'', ''data''], Directory),
      ([''srv'', ''data'', ''config.json''], File (config_file cfg_dup)),
      ([''srv'', ''data'', ''community''], Directory),
      ([''srv'', ''data'', ''community'', ''welcome.json''],
         File (MarshalIndent (seed_topic ''2024-01-01T00:00:00Z'' (seed0 ''welcome''))))]"

text \<open>Stores for the failures of \<open>AddReplyToTopic\<close> and for a title that names a
  path.\<close>

definition fs_tmpdir :: fs where
  "fs_tmpdir =
     [([''srv''], Directory), ([''srv'', ''data''], Directory),
      ([''srv'', ''data'', ''community''], Directory),
      ([''srv'', ''data'', ''community'', ''a.json''],
         File (MarshalIndent (topic0 ''A'' ''2024-01-01T00:00:00Z''))),
      ([''srv'', ''data'', ''community'', ''a.json.tmp''], Directory)]"

definition fs_datafile :: fs where
  "fs_datafile = [([''srv''], Directory), ([''srv'', ''data''], File garbage)]"

definition fs_escaped :: fs where
  "fs_escaped =
     [([''srv''], Directory), ([''srv'', ''data''], Directory),
      ([''srv'', ''data'', ''community''], Directory),
      ([''srv'', ''x.json''],
         File (MarshalIndent (topic0 ''../../x'' ''2024-01-01T00:00:00Z'')))]"

section \<open>Lexical paths: lemmas\<close>

lemma elems_acc_word:
  "Separator \<notin> set e \<Longrightarrow> elems_acc w e = (if w = [] \<and> e = [] then [] else [rev w @ e])"
  by (induction e arbitrary: w) auto

lemma elems_acc_sep:
  "elems_acc w (a @ Separator # b) = elems_acc w a @ elements b"
  by (induction a arbitrary: w) (auto simp: elements_def)

lemma elements_sep: "elements (a @ Separator # b) = elements a @ elements b"
  using elems_acc_sep [of "[]" a b] by (simp add: elements_def)

lemma elements_Sep_Cons [simp]: "elements (Separator # b) = elements b"
  by (simp add: elements_def)

lemma elements_Nil [simp]: "elements [] = []"
  by (simp add: elements_def)

lemma elements_word: "Separator \<notin> set e \<Longrightarrow> e \<noteq> [] \<Longrightarrow> elements e = [e]"
  by (simp add: elements_def elems_acc_word)

lemma elements_join:
  "\<forall>e \<in> set es. e \<noteq> [] \<and> Separator \<notin> set e \<Longrightarrow> elements (join_elems es) = es"
proof (induction es rule: join_elems.induct)
  case 1 then show ?case by simp
next
  case (2 e) then show ?case by (simp add: elements_word)
next
  case (3 e v va)
  have "elements (join_elems (e # v # va)) = elements e @ elements (join_elems (v # va))"
    by (simp add: elements_sep)
  with 3 show ?case by (simp add: elements_word)
qed

lemma elems_acc_nonempty:
  "Separator \<notin> set w \<Longrightarrow> \<forall>e \<in> set (elems_acc w s). e \<noteq> [] \<and> Separator \<notin> set e"
proof (induction s arbitrary: w)
  case Nil then show ?case by simp
next
  case (Cons c s)
  show ?case using Cons.prems Cons.IH [of "c # w"] Cons.IH [of "[]"] by simp
qed

lemma elements_nonempty: "e \<in> set (elements s) \<Longrightarrow> e \<noteq> [] \<and> Separator \<notin> set e"
  using elems_acc_nonempty [of "[]" s] by (simp add: elements_def)

lemma elements_path_of: "list_all valid_name cs \<Longrightarrow> elements (path_of cs) = cs"
  by (simp add: path_of_def elements_join list_all_iff valid_name_def)

lemma norm_acc_valid: "list_all valid_name es \<Longrightarrow> norm_acc r st es = rev st @ es"
  by (induction es arbitrary: st) (auto simp: valid_name_def)

lemma norm_acc_rooted:
  "list_all valid_name st \<Longrightarrow> \<forall>e \<in> set es. e \<noteq> [] \<and> Separator \<notin> set e \<Longrightarrow>
   list_all valid_name (norm_acc True st es)"
proof (induction es arbitrary: st)
  case Nil then show ?case by simp
next
  case (Cons e es)
  then show ?case by (cases st) (auto simp: valid_name_def)
qed

lemma norm_acc_unrooted:
  "list_all valid_name st \<or> (st \<noteq> [] \<and> last st = ''..'') \<Longrightarrow>
   \<forall>e \<in> set es. e \<noteq> [] \<and> Separator \<notin> set e \<Longrightarrow>
   list_all valid_name (norm_acc False st es) \<or>
   (norm_acc False st es \<noteq> [] \<and> hd (norm_acc False st es) = ''..'')"
proof (induction es arbitrary: st)
  case Nil then show ?case by (auto simp: hd_rev)
next
  case (Cons e es)
  show ?case
  proof (cases "e = ''.''")
    case True with Cons show ?thesis by simp
  next
    case False note nd = this
    show ?thesis
    proof (cases "e = ''..''")
      case True
      show ?thesis
      proof (cases st)
        case Nil with True Cons show ?thesis by simp
      next
        case (Cons t ts)
        show ?thesis
        proof (cases "t = ''..''")
          case True
          with \<open>e = ''..''\<close> Cons Cons.prems Cons.IH [of "''..'' # st"] show ?thesis
            by (auto simp: valid_name_def)
        next
          case False
          have "list_all valid_name ts \<or> (ts \<noteq> [] \<and> last ts = ''..'')"
            using Cons.prems(1) Cons False by (auto split: if_splits)
          with \<open>e = ''..''\<close> Cons False Cons.prems Cons.IH [of ts] show ?thesis by simp
        qed
      qed
    next
      case False
      have "valid_name e"
        using Cons.prems(2) nd False by (simp add: valid_name_def)
      then have "list_all valid_name (e # st) \<or> (e # st \<noteq> [] \<and> last (e # st) = ''..'')"
        using Cons.prems(1) by auto
      with nd False Cons.prems Cons.IH [of "e # st"] show ?thesis by simp
    qed
  qed
qed



lemma IsAbs_Cons [simp]: "IsAbs (c # s) = (c = Separator)"
  by (simp add: IsAbs_def HasPrefix_def)

lemma IsAbs_Nil [simp]: "\<not> IsAbs []"
  by (simp add: IsAbs_def HasPrefix_def)

lemma IsAbs_path_of [simp]: "IsAbs (path_of cs)"
  by (simp add: path_of_def)

lemma IsAbs_path_of_append [simp]: "IsAbs (path_of cs @ s)"
  by (simp add: path_of_def)

lemma path_of_not_Nil [simp]: "path_of cs \<noteq> []"
  by (simp add: path_of_def)

lemma Clean_rooted:
  assumes "IsAbs p"
  shows "\<exists>cs. list_all valid_name cs \<and> Clean p = path_of cs"
proof -
  let ?es = "norm_acc True [] (elements p)"
  have "list_all valid_name ?es"
    by (rule norm_acc_rooted) (auto dest: elements_nonempty)
  moreover have "Clean p = path_of ?es"
    using assms by (simp add: Clean_def path_of_def)
  ultimately show ?thesis by blast
qed

lemma Clean_path_of: "list_all valid_name cs \<Longrightarrow> Clean (path_of cs) = path_of cs"
  by (simp add: Clean_def elements_path_of norm_acc_valid) (simp add: path_of_def)

lemma HasPrefix_dotdot_join:
  "es \<noteq> [] \<Longrightarrow> hd es = ''..'' \<Longrightarrow> HasPrefix (join_elems es) ''..''"
  by (cases es rule: join_elems.cases) (auto simp: HasPrefix_def)

lemma Clean_unrooted:
  assumes "\<not> IsAbs p" and "\<not> HasPrefix (Clean p) ''..''"
  shows "\<exists>vs. list_all valid_name vs \<and> Clean p = (if vs = [] then ''.'' else join_elems vs)"
proof -
  let ?es = "norm_acc False [] (elements p)"
  have c: "Clean p = (if ?es = [] then ''.'' else join_elems ?es)"
    using assms(1) by (simp add: Clean_def)
  have "list_all valid_name ?es \<or> (?es \<noteq> [] \<and> hd ?es = ''..'')"
    by (rule norm_acc_unrooted) (auto dest: elements_nonempty)
  moreover have "\<not> (?es \<noteq> [] \<and> hd ?es = ''..'')"
    using assms(2) c HasPrefix_dotdot_join [of ?es] by auto
  ultimately show ?thesis using c by blast
qed

lemma Clean_join_path:
  assumes "list_all valid_name cs" and "elements s = vs" and "list_all valid_name vs"
  shows "Clean (path_of cs @ Separator # s) = path_of (cs @ vs)"
proof -
  have e: "elements (path_of cs @ Separator # s) = cs @ vs"
    using assms by (simp add: elements_sep elements_path_of)
  show ?thesis
    using assms by (simp add: Clean_def e norm_acc_valid) (simp add: path_of_def)
qed

lemma Join_two: "a \<noteq> [] \<Longrightarrow> Join [a, b] = Clean (a @ Separator # b)"
  by simp

lemma Join_path_rel:
  assumes "list_all valid_name cs" and "list_all valid_name vs"
  shows "Join [path_of cs, join_elems vs] = path_of (cs @ vs)"
proof -
  have "elements (join_elems vs) = vs"
    using assms(2) by (simp add: elements_join list_all_iff valid_name_def)
  then show ?thesis
    using assms by (simp add: Join_two Clean_join_path del: Join.simps)
qed

lemma Join_path_abs:
  assumes "list_all valid_name cs" and "list_all valid_name vs"
  shows "Join [path_of cs, path_of vs] = path_of (cs @ vs)"
  using assms by (simp add: Join_two Clean_join_path elements_path_of del: Join.simps)

lemma Join_path_dot:
  assumes "list_all valid_name cs"
  shows "Join [path_of cs, ''.''] = path_of cs"
proof -
  have "elements ''.'' = [''.'']" by (simp add: elements_def Separator_def)
  then have e: "elements (path_of cs @ Separator # ''.'') = cs @ [''.'']"
    using assms by (simp add: elements_sep elements_path_of)
  have n: "norm_acc True st (cs @ [''.'']) = rev st @ cs" for st
    using assms by (induction cs arbitrary: st) (auto simp: valid_name_def)
  have "Join [path_of cs, ''.''] = Clean (path_of cs @ Separator # ''.'')"
    by (simp add: Join_two del: Join.simps)
  also have "\<dots> = path_of cs"
    by (simp add: Clean_def e n) (simp add: path_of_def)
  finally show ?thesis .
qed

lemma Abs_valid:
  assumes "Abs e dir = Inr root"
  shows "\<exists>rc. list_all valid_name rc \<and> root = path_of rc"
proof (cases "IsAbs dir")
  case True
  with assms have "root = Clean dir" by (simp add: Abs_def)
  with Clean_rooted [OF True] show ?thesis by auto
next
  case False
  with assms obtain w where "root = Join [path_of w, dir]"
    by (auto simp: Abs_def Getwd_def split: option.splits)
  then have "root = Clean (path_of w @ Separator # dir)"
    by (simp add: Join_two del: Join.simps)
  moreover have "IsAbs (path_of w @ Separator # dir)" by simp
  ultimately show ?thesis using Clean_rooted by auto
qed

lemma under_path_of:
  "list_all valid_name cs \<Longrightarrow> list_all valid_name vs \<Longrightarrow> under_root (path_of cs) (path_of (cs @ vs))"
  by (simp add: under_root_def Clean_path_of elements_path_of)

lemma Join_Clean_under:
  assumes "list_all valid_name rc" and "\<not> HasPrefix (Clean relPath) ''..''"
  shows "\<exists>vs. list_all valid_name vs \<and> Join [path_of rc, Clean relPath] = path_of (rc @ vs)"
proof (cases "IsAbs relPath")
  case True
  then obtain vs where "list_all valid_name vs" "Clean relPath = path_of vs"
    using Clean_rooted by blast
  then show ?thesis using assms(1) Join_path_abs by metis
next
  case False
  then obtain vs where vs: "list_all valid_name vs"
      "Clean relPath = (if vs = [] then ''.'' else join_elems vs)"
    using Clean_unrooted assms(2) by blast
  show ?thesis
  proof (cases "vs = []")
    case True
    with vs assms(1) have "Join [path_of rc, Clean relPath] = path_of (rc @ [])"
      by (simp add: Join_path_dot del: Join.simps)
    then show ?thesis by (intro exI [of _ "[]"]) simp
  next
    case False
    with vs assms(1) have "Join [path_of rc, Clean relPath] = path_of (rc @ vs)"
      by (simp add: Join_path_rel del: Join.simps)
    with vs show ?thesis by blast
  qed
qed

lemma os_path_path_of:
  "list_all valid_name cs \<Longrightarrow> os_path e (path_of cs) = Some cs"
  by (simp add: os_path_def Clean_path_of elements_path_of)

lemma Clean_valid_name: "valid_name n \<Longrightarrow> Clean n = n"
proof -
  assume v: "valid_name n"
  then have "\<not> IsAbs n" by (cases n) (auto simp: valid_name_def)
  moreover have "elements n = [n]" using v by (simp add: elements_word valid_name_def)
  moreover have "norm_acc False [] [n] = [n]" using v by (simp add: valid_name_def)
  ultimately show ?thesis by (simp add: Clean_def)
qed

section \<open>Path resolution for external identifiers\<close>

text \<open>
  Claim C1. \<open>LoadTopicByRelativePath\<close> cleans the relative path it is given and
  returns the error \<open>invalid topic path\<close> when the cleaned path begins with \<open>..\<close>.
  Otherwise the path it opens is a clean absolute path that runs through the store
  root, so no file outside the root is opened, and the function's result is that of
  loading this one path. \<open>../../etc/passwd\<close> is rejected; \<open>sub/a.json\<close> resolves to
  \<open>sub/a.json\<close> below the root.
\<close>

theorem resolve_under_root:
  assumes "Abs e dir = Inr root"
  shows "(case resolve e dir relPath of
            Inl err \<Rightarrow> HasPrefix (Clean relPath) ''..'' \<and> err = InvalidTopicPath relPath \<and>
               LoadTopicByRelativePath e f dir relPath = Inl err
          | Inr p \<Rightarrow> \<not> HasPrefix (Clean relPath) ''..'' \<and> under_root root p \<and>
               os_path e p = Some (elements p) \<and>
               LoadTopicByRelativePath e f dir relPath =
                 (case loadTopic e f p of
                    Inl err \<Rightarrow> Inl err
                  | Inr topic \<Rightarrow> Inr (case Rel root p of
                                         Some rel \<Rightarrow> topic\<lparr>Filename := rel\<rparr>
                                       | None \<Rightarrow> topic)))
       \<and> resolve e dir ''../../etc/passwd'' = Inl (InvalidTopicPath ''../../etc/passwd'')
       \<and> resolve e dir ''sub/a.json'' = Inr (path_of (elements root @ [''sub'', ''a.json'']))"
proof -
  obtain rc where rc: "list_all valid_name rc" "root = path_of rc"
    using Abs_valid [OF assms] by blast
  have A: "case resolve e dir relPath of
            Inl err \<Rightarrow> HasPrefix (Clean relPath) ''..'' \<and> err = InvalidTopicPath relPath \<and>
               LoadTopicByRelativePath e f dir relPath = Inl err
          | Inr p \<Rightarrow> \<not> HasPrefix (Clean relPath) ''..'' \<and> under_root root p \<and>
               os_path e p = Some (elements p) \<and>
               LoadTopicByRelativePath e f dir relPath =
                 (case loadTopic e f p of
                    Inl err \<Rightarrow> Inl err
                  | Inr topic \<Rightarrow> Inr (case Rel root p of
                                         Some rel \<Rightarrow> topic\<lparr>Filename := rel\<rparr>
                                       | None \<Rightarrow> topic))"
  proof (cases "HasPrefix (Clean relPath) ''..''")
    case True
    then show ?thesis using assms by (simp add: resolve_def LoadTopicByRelativePath_def)
  next
    case False
    then obtain vs where vs: "list_all valid_name vs"
        "Join [root, Clean relPath] = path_of (rc @ vs)"
      using Join_Clean_under rc by blast
    have "under_root root (path_of (rc @ vs))"
      using rc vs under_path_of by simp
    moreover have "os_path e (path_of (rc @ vs)) = Some (elements (path_of (rc @ vs)))"
      using rc vs by (simp add: os_path_path_of elements_path_of)
    ultimately show ?thesis
      using False assms vs(2)
      by (simp add: resolve_def LoadTopicByRelativePath_def Let_def del: Join.simps)
  qed
  have c1: "Clean ''../../etc/passwd'' = ''../../etc/passwd''" by code_simp
  have B: "resolve e dir ''../../etc/passwd'' = Inl (InvalidTopicPath ''../../etc/passwd'')"
    using assms by (simp add: resolve_def c1 HasPrefix_def)
  have c2: "Clean ''sub/a.json'' = join_elems [''sub'', ''a.json'']" by code_simp
  have v2: "list_all valid_name [''sub'', ''a.json'']" by code_simp
  have "\<not> HasPrefix (Clean ''sub/a.json'') ''..''" by code_simp
  then have C: "resolve e dir ''sub/a.json'' = Inr (path_of (elements root @ [''sub'', ''a.json'']))"
    using assms rc Join_path_rel [OF rc(1) v2]
    by (simp add: resolve_def c2 elements_path_of del: Join.simps join_elems.simps)
  from A B C show ?thesis by blast
qed

theorem resolve_under_root_witness:
  "Abs env0 ''data/community'' = Inr ''/srv/data/community'' \<and>
   resolve env0 ''data/community'' ''sub/a.json'' = Inr ''/srv/data/community/sub/a.json'' \<and>
   under_root ''/srv/data/community'' ''/srv/data/community/sub/a.json'' \<and>
   resolve env0 ''data/community'' ''../../etc/passwd'' = Inl (InvalidTopicPath ''../../etc/passwd'')"
proof -
  have a: "Abs env0 ''data/community'' = Inr ''/srv/data/community''" by code_simp
  have r: "resolve env0 ''data/community'' ''sub/a.json'' = Inr ''/srv/data/community/sub/a.json''"
    by code_simp
  have p: "resolve env0 ''data/community'' ''../../etc/passwd'' =
      Inl (InvalidTopicPath ''../../etc/passwd'')"
    using resolve_under_root [OF a, of "''sub/a.json''" fs_dots] by blast
  have "under_root ''/srv/data/community'' ''/srv/data/community/sub/a.json''"
    using resolve_under_root [OF a, of "''sub/a.json''" fs_dots] unfolding r sum.case by blast
  with a r p show ?thesis by blast
qed

lemma Clean_rooted_name:
  assumes "valid_name n"
  shows "Clean (Separator # n) = path_of [n]"
proof -
  have "elements (Separator # n) = [n]"
    using assms by (simp add: elements_word valid_name_def)
  moreover have "norm_acc True [] [n] = [n]" using assms by (simp add: valid_name_def)
  ultimately show ?thesis by (simp add: Clean_def path_of_def)
qed

text \<open>
  Claim C10 (corrected). The test on the cleaned path compares its first two bytes
  with \<open>..\<close>. A file whose name begins with these two bytes, such as
  \<open>..topic.json\<close>, lies directly under the store root and opening it would stay
  under the root, yet \<open>LoadTopicByRelativePath\<close> refuses its name, as it refuses every
  identifier whose cleaned form begins with \<open>..\<close>. The file is not out of reach: the
  same name with a separator in front passes the test and resolves to the file.
\<close>

theorem dotdot_name_refused:
  assumes "Abs e dir = Inr root" and "valid_name n" and "HasPrefix n ''..''"
  shows "LoadTopicByRelativePath e f dir n = Inl (InvalidTopicPath n) \<and>
         Join [root, n] = path_of (elements root @ [n]) \<and>
         under_root root (Join [root, n]) \<and>
         (\<forall>relPath. HasPrefix (Clean relPath) ''..'' \<longrightarrow>
            LoadTopicByRelativePath e f dir relPath = Inl (InvalidTopicPath relPath)) \<and>
         resolve e dir (Separator # n) = Inr (Join [root, n]) \<and>
         LoadTopicByRelativePath e f dir (Separator # n) =
           (case loadTopic e f (Join [root, n]) of
              Inl err \<Rightarrow> Inl err
            | Inr topic \<Rightarrow> Inr (case Rel root (Join [root, n]) of
                                   Some rel \<Rightarrow> topic\<lparr>Filename := rel\<rparr>
                                 | None \<Rightarrow> topic))"
proof -
  obtain rc where rc: "list_all valid_name rc" "root = path_of rc"
    using Abs_valid [OF assms(1)] by blast
  have g: "\<And>relPath. HasPrefix (Clean relPath) ''..'' \<Longrightarrow>
      LoadTopicByRelativePath e f dir relPath = Inl (InvalidTopicPath relPath)"
    using assms(1) by (simp add: LoadTopicByRelativePath_def)
  have j: "Join [root, n] = path_of (rc @ [n])"
    using Join_path_rel [OF rc(1), of "[n]"] assms(2) rc(2) by simp
  have u: "under_root root (path_of (rc @ [n]))"
    using under_path_of [OF rc(1), of "[n]"] assms(2) rc(2) by simp
  have c: "Clean (Separator # n) = path_of [n]" using assms(2) by (rule Clean_rooted_name)
  have np: "\<not> HasPrefix (path_of [n]) ''..''"
    by (simp add: HasPrefix_def path_of_def Separator_def)
  have j2: "Join [root, path_of [n]] = path_of (rc @ [n])"
    using Join_path_abs [OF rc(1), of "[n]"] assms(2) rc(2) by simp
  have r: "resolve e dir (Separator # n) = Inr (Join [root, n])"
    using assms(1) c np j j2 by (simp add: resolve_def del: Join.simps)
  have l: "LoadTopicByRelativePath e f dir (Separator # n) =
           (case loadTopic e f (Join [root, n]) of
              Inl err \<Rightarrow> Inl err
            | Inr topic \<Rightarrow> Inr (case Rel root (Join [root, n]) of
                                   Some rel \<Rightarrow> topic\<lparr>Filename := rel\<rparr>
                                 | None \<Rightarrow> topic))"
    unfolding j using assms(1) c np j2
    by (simp add: LoadTopicByRelativePath_def Let_def del: Join.simps)
  have a: "LoadTopicByRelativePath e f dir n = Inl (InvalidTopicPath n)"
    using g [of n] assms(2,3) by (simp add: Clean_valid_name)
  have e: "Join [root, n] = path_of (elements root @ [n])"
    using j rc by (simp add: elements_path_of)
  from a e u j g r l show ?thesis by simp
qed

theorem dotdot_name_refused_witness:
  "valid_name ''..topic.json'' \<and> HasPrefix ''..topic.json'' ''..'' \<and>
   Abs env0 ''data/community'' = Inr ''/srv/data/community'' \<and>
   LoadTopicByRelativePath env0 fs_dots ''data/community'' ''..topic.json'' =
     Inl (InvalidTopicPath ''..topic.json'') \<and>
   under_root ''/srv/data/community'' (Join [''/srv/data/community'', ''..topic.json'']) \<and>
   Join [''/srv/data/community'', ''..topic.json''] = ''/srv/data/community/..topic.json'' \<and>
   loadTopic env0 fs_dots ''/srv/data/community/..topic.json'' =
     Inr ((topic0 ''Dots'' ''2024-01-01T00:00:00Z'')\<lparr>Filename := ''/srv/data/community/..topic.json''\<rparr>) \<and>
   LoadTopics env0 fs_dots ''data/community'' =
     Inr [(topic0 ''Dots'' ''2024-01-01T00:00:00Z'')\<lparr>Filename := ''..topic.json''\<rparr>]"
proof -
  have v: "valid_name ''..topic.json''" by code_simp
  have h: "HasPrefix ''..topic.json'' ''..''" by code_simp
  have a: "Abs env0 ''data/community'' = Inr ''/srv/data/community''" by code_simp
  have j: "Join [''/srv/data/community'', ''..topic.json''] = ''/srv/data/community/..topic.json''"
    by code_simp
  have l: "loadTopic env0 fs_dots ''/srv/data/community/..topic.json'' =
     Inr ((topic0 ''Dots'' ''2024-01-01T00:00:00Z'')\<lparr>Filename := ''/srv/data/community/..topic.json''\<rparr>)"
    by code_simp
  have s: "LoadTopics env0 fs_dots ''data/community'' =
     Inr [(topic0 ''Dots'' ''2024-01-01T00:00:00Z'')\<lparr>Filename := ''..topic.json''\<rparr>]"
    by code_simp
  from dotdot_name_refused [OF a v h, of fs_dots] v h a j l s show ?thesis
    by blast
qed

text \<open>
  On a store that holds \<open>..topic.json\<close>, the scan gives the record the location
  \<open>..topic.json\<close>; \<open>LoadTopicByRelativePath\<close> refuses that location and loads the
  record when it is asked for \<open>/..topic.json\<close>.
\<close>

theorem dotdot_name_loaded_with_leading_separator:
  "LoadTopics env0 fs_dots ''data/community'' =
     Inr [(topic0 ''Dots'' ''2024-01-01T00:00:00Z'')\<lparr>Filename := ''..topic.json''\<rparr>] \<and>
   LoadTopicByRelativePath env0 fs_dots ''data/community'' ''..topic.json'' =
     Inl (InvalidTopicPath ''..topic.json'') \<and>
   Clean ''/..topic.json'' = ''/..topic.json'' \<and>
   LoadTopicByRelativePath env0 fs_dots ''data/community'' ''/..topic.json'' =
     Inr ((topic0 ''Dots'' ''2024-01-01T00:00:00Z'')\<lparr>Filename := ''..topic.json''\<rparr>)"
  by code_simp

section \<open>Scanning the store\<close>

lemma mset_sift: "mset (sift lt x ys) = add_mset x (mset ys)"
  by (induction ys) auto

lemma set_sift: "set (sift lt x ys) = insert x (set ys)"
  by (induction ys) auto

lemma mset_foldl_sift: "mset (foldl (\<lambda>acc x. sift lt x acc) acc xs) = mset acc + mset xs"
  by (induction xs arbitrary: acc) (auto simp: mset_sift)

lemma mset_sort_slice: "mset (sort_slice lt xs) = mset xs"
  by (simp add: sort_slice_def mset_foldl_sift)

lemma sorted_sift:
  fixes k :: "'a \<Rightarrow> 'b::linorder"
  shows "sorted_wrt (\<lambda>a b. k a \<le> k b) ys \<Longrightarrow>
         sorted_wrt (\<lambda>a b. k a \<le> k b) (sift (\<lambda>a b. k b < k a) x ys)"
  by (induction ys) (auto simp: set_sift)

lemma sorted_foldl_sift:
  fixes k :: "'a \<Rightarrow> 'b::linorder"
  shows "sorted_wrt (\<lambda>a b. k a \<le> k b) acc \<Longrightarrow>
         sorted_wrt (\<lambda>a b. k a \<le> k b) (foldl (\<lambda>acc x. sift (\<lambda>a b. k b < k a) x acc) acc xs)"
  by (induction xs arbitrary: acc) (auto simp: sorted_sift)

lemma sorted_sort_slice:
  fixes k :: "'a \<Rightarrow> 'b::linorder"
  shows "sorted_wrt (\<lambda>a b. k b \<le> k a) (sort_slice (\<lambda>a b. k b < k a) xs)"
  using sorted_foldl_sift [of k "[]" xs] by (simp add: sort_slice_def sorted_wrt_rev)

lemma sorted_wrt_strict:
  fixes k :: "'a \<Rightarrow> 'b::linorder"
  shows "sorted_wrt (\<lambda>a b. k b \<le> k a) xs \<Longrightarrow> distinct (map k xs) \<Longrightarrow>
         sorted_wrt (\<lambda>a b. k b < k a) xs"
proof (induction xs)
  case Nil then show ?case by simp
next
  case (Cons a xs)
  have "k b < k a" if "b \<in> set xs" for b
  proof -
    have "k b \<le> k a" using Cons.prems(1) that by simp
    moreover have "k a \<notin> k ` set xs" using Cons.prems(2) by simp
    then have "k b \<noteq> k a" using that by (metis imageI)
    ultimately show ?thesis by simp
  qed
  with Cons show ?case by simp
qed

lemma LoadTopics_cases:
  assumes "LoadTopics e f dir = Inr topics"
  shows "topics = [] \<or>
         (\<exists>root entries. Abs e dir = Inr root \<and> WalkDir e f root = Inr entries \<and>
            topics = sort_slice (\<lambda>a b. Timestamp a > Timestamp b) (foldl (visit e f root) [] entries))"
  using assms by (auto simp: LoadTopics_def split: sum.splits if_splits)

text \<open>
  Claim C6. Whatever \<open>LoadTopics\<close> returns is in non-increasing order of \<open>Timestamp\<close>
  under the byte-wise comparison of strings, and strictly decreasing when the
  timestamps are pairwise distinct; it holds the records collected by the walk, each
  as often as the walk collected it.
\<close>

theorem LoadTopics_sorted:
  assumes "LoadTopics e f dir = Inr topics"
  shows "sorted_wrt (\<lambda>a b. Timestamp a \<ge> Timestamp b) topics \<and>
         (distinct (map Timestamp topics) \<longrightarrow>
            sorted_wrt (\<lambda>a b. Timestamp a > Timestamp b) topics) \<and>
         (\<forall>root entries. Abs e dir = Inr root \<longrightarrow> WalkDir e f root = Inr entries \<longrightarrow>
            mset topics = mset (foldl (visit e f root) [] entries))"
proof -
  have s: "sorted_wrt (\<lambda>a b. Timestamp a \<ge> Timestamp b) topics"
    using LoadTopics_cases [OF assms] sorted_sort_slice [of Timestamp] by auto
  have m: "mset topics = mset (foldl (visit e f root) [] entries)"
    if "Abs e dir = Inr root" "WalkDir e f root = Inr entries" for root entries
    using assms that by (auto simp: LoadTopics_def mset_sort_slice)
  from s m sorted_wrt_strict [of Timestamp topics] show ?thesis by blast
qed

theorem LoadTopics_sorted_witness:
  "LoadTopics env0 fs_three ''data/community'' =
     Inr [(topic0 ''B'' ''2024-01-03T00:00:00Z'')\<lparr>Filename := ''b.JSON''\<rparr>,
          (topic0 ''C'' ''2024-01-02T00:00:00Z'')\<lparr>Filename := ''sub/c.json''\<rparr>,
          (topic0 ''A'' ''2024-01-01T00:00:00Z'')\<lparr>Filename := ''a.json''\<rparr>] \<and>
   sorted_wrt (\<lambda>a b. Timestamp a > Timestamp b)
     [(topic0 ''B'' ''2024-01-03T00:00:00Z'')\<lparr>Filename := ''b.JSON''\<rparr>,
      (topic0 ''C'' ''2024-01-02T00:00:00Z'')\<lparr>Filename := ''sub/c.json''\<rparr>,
      (topic0 ''A'' ''2024-01-01T00:00:00Z'')\<lparr>Filename := ''a.json''\<rparr>]"
proof -
  let ?ts = "[(topic0 ''B'' ''2024-01-03T00:00:00Z'')\<lparr>Filename := ''b.JSON''\<rparr>,
          (topic0 ''C'' ''2024-01-02T00:00:00Z'')\<lparr>Filename := ''sub/c.json''\<rparr>,
          (topic0 ''A'' ''2024-01-01T00:00:00Z'')\<lparr>Filename := ''a.json''\<rparr>]"
  have l: "LoadTopics env0 fs_three ''data/community'' = Inr ?ts" by code_simp
  have d: "distinct (map Timestamp ?ts)" by code_simp
  from LoadTopics_sorted [OF l] d l show ?thesis by blast
qed

text \<open>
  Claim C8. When the scan succeeds, \<open>LoadRecentTopics\<close> returns the first \<open>limit\<close>
  records of the scan for a positive \<open>limit\<close> smaller than their number, and the whole
  scan for every \<open>limit\<close> that is zero or negative.
\<close>

theorem LoadRecentTopics_limit:
  assumes "LoadTopics e f dir = Inr topics"
  shows "(0 < limit \<and> limit < int (length topics) \<longrightarrow>
            LoadRecentTopics e f dir limit = Inr (take (nat limit) topics)) \<and>
         (limit \<le> 0 \<longrightarrow> LoadRecentTopics e f dir limit = Inr topics)"
  using assms by (simp add: LoadRecentTopics_def)

theorem LoadRecentTopics_limit_witness:
  "LoadTopics env0 fs_three ''data/community'' =
     Inr [(topic0 ''B'' ''2024-01-03T00:00:00Z'')\<lparr>Filename := ''b.JSON''\<rparr>,
          (topic0 ''C'' ''2024-01-02T00:00:00Z'')\<lparr>Filename := ''sub/c.json''\<rparr>,
          (topic0 ''A'' ''2024-01-01T00:00:00Z'')\<lparr>Filename := ''a.json''\<rparr>] \<and>
   LoadRecentTopics env0 fs_three ''data/community'' 2 =
     Inr [(topic0 ''B'' ''2024-01-03T00:00:00Z'')\<lparr>Filename := ''b.JSON''\<rparr>,
          (topic0 ''C'' ''2024-01-02T00:00:00Z'')\<lparr>Filename := ''sub/c.json''\<rparr>] \<and>
   LoadRecentTopics env0 fs_three ''data/community'' 0 =
     LoadTopics env0 fs_three ''data/community'' \<and>
   LoadRecentTopics env0 fs_three ''data/community'' (- 1) =
     LoadTopics env0 fs_three ''data/community''"
proof -
  let ?ts = "[(topic0 ''B'' ''2024-01-03T00:00:00Z'')\<lparr>Filename := ''b.JSON''\<rparr>,
          (topic0 ''C'' ''2024-01-02T00:00:00Z'')\<lparr>Filename := ''sub/c.json''\<rparr>,
          (topic0 ''A'' ''2024-01-01T00:00:00Z'')\<lparr>Filename := ''a.json''\<rparr>]"
  have l: "LoadTopics env0 fs_three ''data/community'' = Inr ?ts" by code_simp
  have "LoadRecentTopics env0 fs_three ''data/community'' 2 = Inr (take (nat 2) ?ts)"
    using LoadRecentTopics_limit [OF l, of 2] by simp
  moreover have "LoadRecentTopics env0 fs_three ''data/community'' 0 = Inr ?ts"
    using LoadRecentTopics_limit [OF l, of 0] by simp
  moreover have "LoadRecentTopics env0 fs_three ''data/community'' (- 1) = Inr ?ts"
    using LoadRecentTopics_limit [OF l, of "- 1"] by simp
  ultimately show ?thesis using l by simp
qed

lemma visit_append: "visit e f root acc d = acc @ visit e f root [] d"
  by (auto simp: visit_def split: prod.splits sum.splits)

lemma foldl_visit:
  "foldl (visit e f root) acc entries = acc @ concat (map (visit e f root []) entries)"
proof (induction entries arbitrary: acc)
  case Nil then show ?case by simp
next
  case (Cons d ds)
  show ?case using Cons [of "visit e f root acc d"] visit_append [of e f root acc d] by simp
qed

lemma length_visit:
  "length (visit e f root [] d) =
     (if record_entry e d \<and> \<not> isl (loadTopic e f (fst d)) then 1 else 0)"
  by (auto simp: visit_def record_entry_def split: prod.splits sum.splits)

lemma length_concat_visit:
  "length (concat (map (visit e f root []) entries)) =
   length (filter (\<lambda>d. record_entry e d \<and> \<not> isl (loadTopic e f (fst d))) entries)"
  by (induction entries) (simp_all add: length_visit)

text \<open>
  Claim C7. A file that \<open>loadTopic\<close> cannot load adds nothing to the scan and gives no
  error: for a store root that can be walked, \<open>LoadTopics\<close> succeeds and returns one
  record for each entry that is a record file and loads, and nothing else. A store
  with one well-formed record file and one undecodable file yields the one record.
\<close>

theorem LoadTopics_skips_corrupt:
  assumes "Abs e dir = Inr root" and "WalkDir e f root = Inr entries"
  shows "\<exists>topics. LoadTopics e f dir = Inr topics \<and>
           mset topics = mset (concat (map (visit e f root []) entries)) \<and>
           (\<forall>d \<in> set entries. isl (loadTopic e f (fst d)) \<longrightarrow> visit e f root [] d = []) \<and>
           length topics =
             length (filter (\<lambda>d. record_entry e d \<and> \<not> isl (loadTopic e f (fst d))) entries)"
proof -
  let ?ts = "sort_slice (\<lambda>a b. Timestamp a > Timestamp b) (foldl (visit e f root) [] entries)"
  have l: "LoadTopics e f dir = Inr ?ts"
    using assms by (simp add: LoadTopics_def)
  have m: "mset ?ts = mset (concat (map (visit e f root []) entries))"
    by (simp add: mset_sort_slice foldl_visit)
  have "length ?ts = length (concat (map (visit e f root []) entries))"
    using m by (metis size_mset)
  then have n: "length ?ts =
      length (filter (\<lambda>d. record_entry e d \<and> \<not> isl (loadTopic e f (fst d))) entries)"
    by (simp add: length_concat_visit)
  have s: "\<forall>d \<in> set entries. isl (loadTopic e f (fst d)) \<longrightarrow> visit e f root [] d = []"
    using length_visit [of e f root] by (metis length_0_conv)
  from l m n s show ?thesis by blast
qed

theorem LoadTopics_skips_corrupt_witness:
  "Abs env0 ''data/community'' = Inr ''/srv/data/community'' \<and>
   WalkDir env0 fs_two ''/srv/data/community'' =
     Inr [(''/srv/data/community'', ''community'', True),
          (''/srv/data/community/bad.json'', ''bad.json'', False),
          (''/srv/data/community/good.json'', ''good.json'', False)] \<and>
   loadTopic env0 fs_two ''/srv/data/community/bad.json'' = Inl DecodeTopicJSON \<and>
   LoadTopics env0 fs_two ''data/community'' =
     Inr [(topic0 ''Good'' ''2024-01-02T00:00:00Z'')\<lparr>Filename := ''good.json''\<rparr>]"
proof -
  have a: "Abs env0 ''data/community'' = Inr ''/srv/data/community''" by code_simp
  have w: "WalkDir env0 fs_two ''/srv/data/community'' =
     Inr [(''/srv/data/community'', ''community'', True),
          (''/srv/data/community/bad.json'', ''bad.json'', False),
          (''/srv/data/community/good.json'', ''good.json'', False)]" by code_simp
  have b: "loadTopic env0 fs_two ''/srv/data/community/bad.json'' = Inl DecodeTopicJSON"
    by code_simp
  have g: "visit env0 fs_two ''/srv/data/community'' []
      (''/srv/data/community/good.json'', ''good.json'', False) =
     [(topic0 ''Good'' ''2024-01-02T00:00:00Z'')\<lparr>Filename := ''good.json''\<rparr>]" by code_simp
  have r: "visit env0 fs_two ''/srv/data/community'' []
      (''/srv/data/community'', ''community'', True) = []" by code_simp
  obtain topics where t: "LoadTopics env0 fs_two ''data/community'' = Inr topics"
      "mset topics = mset (concat (map (visit env0 fs_two ''/srv/data/community'' [])
          [(''/srv/data/community'', ''community'', True),
          (''/srv/data/community/bad.json'', ''bad.json'', False),
          (''/srv/data/community/good.json'', ''good.json'', False)]))"
      "visit env0 fs_two ''/srv/data/community'' []
         (''/srv/data/community/bad.json'', ''bad.json'', False) = []"
    using LoadTopics_skips_corrupt [OF a w] b by auto
  from t(2,3) g r have "mset topics =
      {#(topic0 ''Good'' ''2024-01-02T00:00:00Z'')\<lparr>Filename := ''good.json''\<rparr>#}"
    by simp
  then have "topics = [(topic0 ''Good'' ''2024-01-02T00:00:00Z'')\<lparr>Filename := ''good.json''\<rparr>]"
    by (metis mset_single_iff_right)
  with t(1) a w b show ?thesis by simp
qed

section \<open>File system operations: lemmas\<close>

lemma node_at_update:
  "k \<noteq> [] \<Longrightarrow> node_at (AList.update k v f) q = (if q = k then Some v else node_at f q)"
  by (auto simp: node_at_def update_conv')

lemma node_at_delete:
  "k \<noteq> [] \<Longrightarrow> node_at (AList.delete k f) q = (if q = k then None else node_at f q)"
  by (auto simp: node_at_def delete_conv')

lemma node_at_mkdir_missing:
  "node_at (mkdir_missing k f) q =
     (if q = k \<and> node_at f k = None then Some Directory else node_at f q)"
proof (cases "k = []")
  case True then show ?thesis by (simp add: mkdir_missing_def node_at_def)
next
  case False then show ?thesis by (simp add: mkdir_missing_def node_at_update)
qed

lemma node_at_fold_mkdir:
  "node_at (fold mkdir_missing qs f) q =
     (if q \<in> set qs \<and> node_at f q = None then Some Directory else node_at f q)"
  by (induction qs arbitrary: f) (auto simp: node_at_mkdir_missing)

lemma os_stat_Inr: "os_stat f cs = Inr n \<longleftrightarrow> node_at f cs = Some n"
  by (auto simp: os_stat_def split: option.splits)

lemma is_file_iff: "is_file f cs \<longleftrightarrow> (\<exists>d. node_at f cs = Some (File d))"
  by (auto simp: is_file_def split: option.splits node.splits)

lemma join_elems_snoc:
  "dc \<noteq> [] \<Longrightarrow> join_elems (dc @ [n]) = join_elems dc @ Separator # n"
  by (induction dc rule: join_elems.induct) auto

lemma path_of_snoc_append: "path_of (dc @ [n]) @ s = path_of (dc @ [n @ s])"
  by (cases "dc = []") (simp_all add: path_of_def join_elems_snoc)

lemma valid_name_tmp: "valid_name n \<Longrightarrow> valid_name (n @ ''.tmp'')"
  by (cases n) (auto simp: valid_name_def Separator_def)

lemma Dir_path_of:
  assumes "list_all valid_name dc" and "valid_name n"
  shows "Dir (path_of (dc @ [n])) = path_of dc"
proof -
  have ns: "Separator \<notin> set n" using assms(2) by (simp add: valid_name_def)
  have d: "dropWhile (\<lambda>c. c \<noteq> Separator) (rev n @ Separator # r) = Separator # r" for r
  proof -
    have "\<And>x. x \<in> set (rev n) \<Longrightarrow> x \<noteq> Separator" using ns by auto
    then have "dropWhile (\<lambda>c. c \<noteq> Separator) (rev n @ Separator # r) =
        dropWhile (\<lambda>c. c \<noteq> Separator) (Separator # r)"
      by (rule dropWhile_append2)
    then show ?thesis by simp
  qed
  show ?thesis
  proof (cases "dc = []")
    case True
    have "rev (path_of [n]) = rev n @ [Separator]" by (simp add: path_of_def)
    then have "Dir (path_of [n]) = Clean [Separator]"
      using d [of "[]"] by (simp add: Dir_def)
    also have "\<dots> = path_of []" by (simp add: Clean_def path_of_def)
    finally show ?thesis using True by simp
  next
    case False
    then have "rev (path_of (dc @ [n])) = rev n @ Separator # rev (path_of dc)"
      by (simp add: path_of_def join_elems_snoc)
    then have "Dir (path_of (dc @ [n])) = Clean (path_of dc @ [Separator])"
      using d [of "rev (path_of dc)"] by (simp add: Dir_def)
    also have "\<dots> = path_of dc"
      using Clean_join_path [OF assms(1), of "[]" "[]"] by simp
    finally show ?thesis .
  qed
qed

lemma os_mkdir_all_effect:
  assumes "list_all valid_name cs" and "os_mkdir_all e f (path_of cs) = Inr f'"
  shows "node_at f' q =
           (if q \<in> set (prefixes cs) \<and> node_at f q = None then Some Directory else node_at f q)"
    and "\<forall>q \<in> set (prefixes cs). \<not> is_file f q"
  using assms
  by (auto simp: os_mkdir_all_def os_path_path_of node_at_fold_mkdir list_ex_iff split: if_splits)

lemma os_write_file_effect:
  assumes "list_all valid_name cs" and "cs \<noteq> []"
    and "os_write_file e f (path_of cs) d = Inr f'"
  shows "node_at f' q = (if q = cs then Some (File d) else node_at f q)"
    and "node_at f (butlast cs) = Some Directory"
    and "node_at f cs \<noteq> Some Directory"
  using assms
  by (auto simp: os_write_file_def os_path_path_of node_at_update os_stat_Inr
           split: if_splits sum.splits node.splits option.splits)

lemma os_rename_effect:
  assumes "list_all valid_name old" and "list_all valid_name new" and "new \<noteq> []"
    and "node_at f old = Some (File d)"
    and "os_rename e f (path_of old) (path_of new) = Inr f'"
  shows "node_at f' q = (if q = new then Some (File d) else if q = old then None else node_at f q)"
    and "node_at f new \<noteq> Some Directory"
proof -
  have o: "old \<noteq> []" using assms(4) by (auto simp: node_at_def)
  have s: "os_stat f old = Inr (File d)" using assms(4) by (simp add: os_stat_Inr)
  have n: "node_at (AList.update new v (AList.delete old f)) q =
      (if q = new then Some v else if q = old then None else node_at f q)" for v
    using o assms(3) by (simp add: node_at_update node_at_delete)
  show "node_at f' q = (if q = new then Some (File d) else if q = old then None else node_at f q)"
    using assms(1,2,3,5) s n
    by (auto simp: os_rename_def os_path_path_of split: if_splits sum.splits node.splits option.splits)
  show "node_at f new \<noteq> Some Directory"
    using assms(1,2,3,5) s
    by (auto simp: os_rename_def os_path_path_of split: if_splits sum.splits node.splits option.splits)
qed

section \<open>Saving\<close>

text \<open>
  Claim C3 (violated by the code). \<open>SaveTopic\<close> assigns the relative path of the saved
  file to \<open>topic.Filename\<close>, but \<open>topic\<close> is the function's own copy of the argument:
  the caller's record keeps the \<open>Filename\<close> it had. Saving a topic titled \<open>Hello\<close>
  with no \<open>Filename\<close> writes \<open>hello.json\<close> and sets the local copy's \<open>Filename\<close> to
  \<open>hello.json\<close>, while the caller still reads the empty string.
\<close>

theorem SaveTopic_caller_Filename_unset:
  "SaveTopic_local env0 fs_empty (topic0 ''Hello'' ''2024-01-01T00:00:00Z'') ''data/community'' =
     (fs_hello, None, (topic0 ''Hello'' ''2024-01-01T00:00:00Z'')\<lparr>Filename := ''hello.json''\<rparr>) \<and>
   save_then_read_Filename env0 fs_empty (topic0 ''Hello'' ''2024-01-01T00:00:00Z'')
       ''data/community'' = (fs_hello, None, [])"
  by code_simp

lemma atomic_write_effect:
  assumes v: "list_all valid_name dc" "valid_name n"
    and m: "os_mkdir_all e f1 (Dir (path_of (dc @ [n]))) = Inr f2"
    and w: "os_write_file e f2 (path_of (dc @ [n]) @ ''.tmp'') data = Inr f3"
    and r: "os_rename e f3 (path_of (dc @ [n]) @ ''.tmp'') (path_of (dc @ [n])) = Inr f4"
  shows "node_at f4 q =
           (if q = dc @ [n] then Some (File data)
            else if q = dc @ [n @ ''.tmp''] then None
            else if q \<in> set (prefixes dc) \<and> node_at f1 q = None then Some Directory
            else node_at f1 q)"
proof -
  let ?t = "dc @ [n @ ''.tmp'']"
  have vt: "list_all valid_name ?t" using v by (simp add: valid_name_tmp)
  have vn: "list_all valid_name (dc @ [n])" using v by simp
  have ts: "path_of (dc @ [n]) @ ''.tmp'' = path_of ?t" by (rule path_of_snoc_append)
  have m': "os_mkdir_all e f1 (path_of dc) = Inr f2" using m v by (simp add: Dir_path_of)
  have n2: "node_at f2 q =
      (if q \<in> set (prefixes dc) \<and> node_at f1 q = None then Some Directory else node_at f1 q)" for q
    using os_mkdir_all_effect(1) [OF v(1) m'] .
  have w': "os_write_file e f2 (path_of ?t) data = Inr f3" using w ts by simp
  have n3: "node_at f3 q = (if q = ?t then Some (File data) else node_at f2 q)" for q
    using os_write_file_effect(1) [OF vt _ w'] by simp
  have r': "os_rename e f3 (path_of ?t) (path_of (dc @ [n])) = Inr f4" using r ts by simp
  have n4: "node_at f4 q =
      (if q = dc @ [n] then Some (File data) else if q = ?t then None else node_at f3 q)" for q
    using os_rename_effect(1) [OF vt vn _ _ r', of data] n3 [of ?t] by simp
  show ?thesis using n4 [of q] n3 [of q] n2 [of q] by simp
qed

lemma SaveTopic_success:
  assumes "SaveTopic e f topic dir = (f', None)" and "Abs e dir = Inr root"
  shows "\<exists>f1 path f2 f3.
           choose_path e f topic root = Inr (f1, path) \<and>
           os_mkdir_all e f1 (Dir path) = Inr f2 \<and>
           os_write_file e f2 (path @ ''.tmp'') (MarshalIndent topic) = Inr f3 \<and>
           os_rename e f3 (path @ ''.tmp'') path = Inr f'"
  using assms
  by (auto simp: SaveTopic_def SaveTopic_local_def Let_def split: sum.splits prod.splits)

lemma SaveTopic_error_kinds:
  "SaveTopic e f topic dir = (f', Some err) \<Longrightarrow> err \<noteq> TopicNotFound title"
  by (auto simp: SaveTopic_def SaveTopic_local_def choose_path_def Let_def
           split: sum.splits prod.splits if_splits)

lemma SaveTopic_effect:
  assumes "SaveTopic e f topic dir = (f', None)" and "Abs e dir = Inr root"
    and "choose_path e f topic root = Inr (f1, path_of (dc @ [n]))"
    and "list_all valid_name dc" and "valid_name n"
  shows "node_at f' q =
           (if q = dc @ [n] then Some (File (MarshalIndent topic))
            else if q = dc @ [n @ ''.tmp''] then None
            else if q \<in> set (prefixes dc) \<and> node_at f1 q = None then Some Directory
            else node_at f1 q)"
proof -
  obtain f2 f3 where
      "os_mkdir_all e f1 (Dir (path_of (dc @ [n]))) = Inr f2"
      "os_write_file e f2 (path_of (dc @ [n]) @ ''.tmp'') (MarshalIndent topic) = Inr f3"
      "os_rename e f3 (path_of (dc @ [n]) @ ''.tmp'') (path_of (dc @ [n])) = Inr f'"
    using SaveTopic_success [OF assms(1,2)] assms(3) by auto
  then show ?thesis using atomic_write_effect [OF assms(4,5)] by blast
qed

lemma generated_filename_suffix:
  "\<exists>stem. generated_filename e title = stem @ ''.json''"
  by (simp add: generated_filename_def Let_def)

lemma valid_generated:
  assumes "Separator \<notin> set (generated_filename e title)"
  shows "valid_name (generated_filename e title)"
proof -
  obtain stem where s: "generated_filename e title = stem @ ''.json''"
    using generated_filename_suffix by blast
  have "length (generated_filename e title) \<ge> 5" using s by simp
  then have "generated_filename e title \<noteq> []" "generated_filename e title \<noteq> ''.''"
      "generated_filename e title \<noteq> ''..''" by auto
  with assms show ?thesis by (simp add: valid_name_def)
qed

lemma choose_path_new:
  assumes "Filename topic = []" and "list_all valid_name rc"
    and "valid_name (generated_filename e (Title topic))"
    and "choose_path e f topic (path_of rc) = Inr (f1, path)"
  shows "os_mkdir_all e f (path_of rc) = Inr f1 \<and>
         path = path_of (rc @ [generated_filename e (Title topic)])"
proof -
  have "Join [path_of rc, generated_filename e (Title topic)] =
      path_of (rc @ [generated_filename e (Title topic)])"
    using Join_path_rel [OF assms(2), of "[generated_filename e (Title topic)]"] assms(3) by simp
  then show ?thesis
    using assms(1,4) by (auto simp: choose_path_def split: sum.splits simp del: Join.simps)
qed

lemma SaveTopic_new_effect:
  assumes s: "SaveTopic e f topic dir = (f', None)" and a: "Abs e dir = Inr (path_of rc)"
    and rc: "list_all valid_name rc"
    and fn: "Filename topic = []"
    and n: "Separator \<notin> set (generated_filename e (Title topic))"
  shows "node_at f' q =
           (if q = rc @ [generated_filename e (Title topic)]
              then Some (File (MarshalIndent topic))
            else if q = rc @ [generated_filename e (Title topic) @ ''.tmp''] then None
            else if q \<in> set (prefixes rc) \<and> node_at f q = None then Some Directory
            else node_at f q)"
proof -
  let ?n = "generated_filename e (Title topic)"
  have vn: "valid_name ?n" using n by (rule valid_generated)
  obtain f1 path where c: "choose_path e f topic (path_of rc) = Inr (f1, path)"
    using SaveTopic_success [OF s a] by blast
  have c': "os_mkdir_all e f (path_of rc) = Inr f1" "path = path_of (rc @ [?n])"
    using choose_path_new [OF fn rc vn c] by simp_all
  have n1: "node_at f1 q =
      (if q \<in> set (prefixes rc) \<and> node_at f q = None then Some Directory else node_at f q)" for q
    using os_mkdir_all_effect(1) [OF rc c'(1)] .
  have "node_at f' q =
           (if q = rc @ [?n] then Some (File (MarshalIndent topic))
            else if q = rc @ [?n @ ''.tmp''] then None
            else if q \<in> set (prefixes rc) \<and> node_at f1 q = None then Some Directory
            else node_at f1 q)"
    using SaveTopic_effect [OF s a _ rc vn] c c'(2) by simp
  then show ?thesis using n1 [of q] by auto
qed

lemma ReplaceAll_byte:
  "ReplaceAll s [c] new = concat (map (\<lambda>x. if x = c then new else [x]) s)"
proof (induction s)
  case Nil then show ?case by (simp add: ReplaceAll.simps)
next
  case (Cons a s)
  then show ?case by (subst ReplaceAll.simps) (simp add: HasPrefix_def)
qed

lemma generated_filename_spec:
  "generated_filename e title = spec_file_name (ToLower (unicode_lower e) title)"
proof -
  have a: "ReplaceAll s '' '' ''_'' = map (\<lambda>c. if c = CHR '' '' then CHR ''_'' else c) s" for s
    by (simp add: ReplaceAll_byte) (induction s, auto)
  have b: "ReplaceAll s [CHR 0x27] [] = filter (\<lambda>c. c \<noteq> CHR 0x27) s" for s
    by (simp add: ReplaceAll_byte) (induction s, auto)
  show ?thesis
    by (simp add: generated_filename_def spec_file_name_def Let_def a b min_int_def)
qed

text \<open>
  For a topic without \<open>Filename\<close>, \<open>SaveTopic\<close> generates the name the
  specification describes (lower-cased title, spaces to underscores, apostrophes
  removed, 50 bytes, \<open>.json\<close>). When the generated name holds no separator the topic
  is written to that name directly under the store root.
\<close>

theorem SaveTopic_generated_name:
  assumes "Abs e dir = Inr root" and "Filename topic = []"
    and "Separator \<notin> set (generated_filename e (Title topic))"
    and "SaveTopic e f topic dir = (f', None)"
  shows "generated_filename e (Title topic) =
           spec_file_name (ToLower (unicode_lower e) (Title topic)) \<and>
         (\<exists>f1. choose_path e f topic root =
                  Inr (f1, path_of (elements root @ [generated_filename e (Title topic)]))) \<and>
         Dir (path_of (elements root @ [generated_filename e (Title topic)])) = root \<and>
         node_at f' (elements root @ [generated_filename e (Title topic)]) =
           Some (File (MarshalIndent topic))"
proof -
  let ?n = "generated_filename e (Title topic)"
  obtain rc where rc: "list_all valid_name rc" "root = path_of rc"
    using Abs_valid [OF assms(1)] by blast
  have er: "elements root = rc" using rc by (simp add: elements_path_of)
  have vn: "valid_name ?n" using assms(3) by (rule valid_generated)
  obtain f1 path where c: "choose_path e f topic root = Inr (f1, path)"
    using SaveTopic_success [OF assms(4,1)] by blast
  then have p: "path = path_of (rc @ [?n])"
    using choose_path_new [OF assms(2) rc(1) vn] rc(2) by simp
  have d: "Dir (path_of (rc @ [?n])) = root"
    using Dir_path_of [OF rc(1) vn] rc(2) by simp
  have n: "node_at f' (rc @ [?n]) = Some (File (MarshalIndent topic))"
    using SaveTopic_new_effect [OF assms(4) _ rc(1) assms(2,3), of "rc @ [?n]"] assms(1) rc(2)
    by simp
  show ?thesis using generated_filename_spec c p d n er by simp
qed

theorem SaveTopic_generated_name_witness:
  "Abs env0 ''data/community'' = Inr ''/srv/data/community'' \<and>
   Filename (topic0 ''It's A Test'' ''2024-01-01T00:00:00Z'') = [] \<and>
   generated_filename env0 ''It's A Test'' = ''its_a_test.json'' \<and>
   SaveTopic env0 fs_empty (topic0 ''It's A Test'' ''2024-01-01T00:00:00Z'') ''data/community'' =
     (fs_test, None) \<and>
   node_at fs_test [''srv'', ''data'', ''community'', ''its_a_test.json''] =
     Some (File (MarshalIndent (topic0 ''It's A Test'' ''2024-01-01T00:00:00Z'')))"
proof -
  let ?t = "topic0 ''It's A Test'' ''2024-01-01T00:00:00Z''"
  have a: "Abs env0 ''data/community'' = Inr ''/srv/data/community''" by code_simp
  have b: "Filename ?t = []" by code_simp
  have g: "generated_filename env0 ''It's A Test'' = ''its_a_test.json''" by code_simp
  have ti: "Title ?t = ''It's A Test''" by code_simp
  have c: "Separator \<notin> set (generated_filename env0 (Title ?t))"
    unfolding ti g by code_simp
  have s: "SaveTopic env0 fs_empty ?t ''data/community'' = (fs_test, None)" by code_simp
  have el: "elements ''/srv/data/community'' = [''srv'', ''data'', ''community'']" by code_simp
  have "node_at fs_test (elements ''/srv/data/community'' @ [generated_filename env0 (Title ?t)]) =
      Some (File (MarshalIndent ?t))"
    using SaveTopic_generated_name [OF a b c s] by blast
  then have "node_at fs_test [''srv'', ''data'', ''community'', ''its_a_test.json''] =
      Some (File (MarshalIndent ?t))"
    unfolding ti g el by simp
  with a b g s show ?thesis by blast
qed

text \<open>
  A title with a separator gives a name with a separator: the topic titled \<open>a/b\<close> is
  written to \<open>a/b.json\<close>, in the directory \<open>a\<close> that \<open>SaveTopic\<close> creates under the
  store root, and the store root itself holds no file afterwards.
\<close>

theorem SaveTopic_title_with_separator:
  "Filename (topic0 ''a/b'' ''2024-01-01T00:00:00Z'') = [] \<and>
   generated_filename env0 ''a/b'' = ''a/b.json'' \<and>
   SaveTopic env0 fs_empty (topic0 ''a/b'' ''2024-01-01T00:00:00Z'') ''data/community'' =
     (fs_ab, None) \<and>
   os_read_dir env0 fs_ab ''data/community'' = Inr [''a''] \<and>
   node_at fs_ab [''srv'', ''data'', ''community'', ''a''] = Some Directory \<and>
   node_at fs_ab [''srv'', ''data'', ''community'', ''a'', ''b.json''] =
     Some (File (MarshalIndent (topic0 ''a/b'' ''2024-01-01T00:00:00Z''))) \<and>
   Dir ''/srv/data/community/a/b.json'' \<noteq> ''/srv/data/community''"
  by code_simp

text \<open>
  Claim C9 (violated by the code). The name is generated as the claim says, but the
  file is not always placed directly under the store root: \<open>SaveTopic\<close> replaces spaces
  and removes apostrophes and leaves separators in the name. The title \<open>../../x\<close>
  generates \<open>../../x.json\<close>; \<open>Join\<close> with the store root \<open>/srv/data/community\<close> gives
  \<open>/srv/x.json\<close>, which is not under the root. The save succeeds and writes that
  file; the store root holds nothing afterwards and the scan returns no record.
\<close>

theorem SaveTopic_title_escapes_root:
  "Filename (topic0 ''../../x'' ''2024-01-01T00:00:00Z'') = [] \<and>
   generated_filename env0 ''../../x'' = ''../../x.json'' \<and>
   Abs env0 ''data/community'' = Inr ''/srv/data/community'' \<and>
   Join [''/srv/data/community'', ''../../x.json''] = ''/srv/x.json'' \<and>
   \<not> under_root ''/srv/data/community'' ''/srv/x.json'' \<and>
   SaveTopic env0 fs_empty (topic0 ''../../x'' ''2024-01-01T00:00:00Z'') ''data/community'' =
     (fs_escaped, None) \<and>
   node_at fs_escaped [''srv'', ''x.json''] =
     Some (File (MarshalIndent (topic0 ''../../x'' ''2024-01-01T00:00:00Z''))) \<and>
   os_read_dir env0 fs_escaped ''data/community'' = Inr [] \<and>
   LoadTopics env0 fs_escaped ''data/community'' = Inr []"
  by code_simp

lemma json_not_tmp: "stem @ ''.json'' \<noteq> n @ ''.tmp''"
proof
  assume "stem @ ''.json'' = n @ ''.tmp''"
  then have "last (stem @ ''.json'') = last (n @ ''.tmp'')" by simp
  then show False by simp
qed

lemma generated_not_tmp: "generated_filename e title \<noteq> n @ ''.tmp''"
  using generated_filename_suffix [of e title] json_not_tmp by metis

lemma snoc_not_prefix: "rc @ [n] \<notin> set (prefixes rc)"
proof
  assume "rc @ [n] \<in> set (prefixes rc)"
  then have "prefix (rc @ [n]) rc" by simp
  then have "length (rc @ [n]) \<le> length rc" by (rule prefix_length_le)
  then show False by simp
qed




section \<open>Appending a reply\<close>

lemma strip_common_append: "strip_common rc (rc @ vs) = ([], vs)"
proof (induction rc)
  case Nil show ?case by (cases vs) simp_all
next
  case (Cons a rc) then show ?case by simp
qed

lemma path_of_neq_dot: "path_of cs \<noteq> ''.''"
  by (simp add: path_of_def Separator_def)

lemma clean_elems_path_of: "list_all valid_name cs \<Longrightarrow> clean_elems (path_of cs) = cs"
  by (simp add: clean_elems_def Clean_path_of path_of_neq_dot elements_path_of)

lemma path_of_inj:
  "list_all valid_name cs \<Longrightarrow> list_all valid_name ds \<Longrightarrow> path_of cs = path_of ds \<Longrightarrow> cs = ds"
  by (metis elements_path_of)

lemma Rel_under:
  assumes "list_all valid_name rc" and "list_all valid_name vs"
  shows "Rel (path_of rc) (path_of (rc @ vs)) = Some (if vs = [] then ''.'' else join_elems vs)"
proof (cases "vs = []")
  case True then show ?thesis by (simp add: Rel_def)
next
  case False
  have v: "list_all valid_name (rc @ vs)" using assms by simp
  have ne: "path_of (rc @ vs) \<noteq> path_of rc"
    using path_of_inj [OF v assms(1)] False by auto
  show ?thesis
    using False ne assms v
    by (simp add: Rel_def Clean_path_of clean_elems_path_of strip_common_append)
qed

lemma join_elems_valid:
  assumes "list_all valid_name vs" and "vs \<noteq> []"
  shows "join_elems vs \<noteq> [] \<and> \<not> IsAbs (join_elems vs)"
proof -
  obtain v ws where vs: "vs = v # ws" using assms(2) by (cases vs) auto
  then have "valid_name v" using assms(1) by simp
  then obtain c cs where "v = c # cs" "c \<noteq> Separator"
    by (cases v) (auto simp: valid_name_def)
  then show ?thesis using vs by (cases ws) auto
qed

lemma rel_name_props:
  assumes "list_all valid_name rc" and "list_all valid_name vs"
  shows "rel_name vs \<noteq> []" and "\<not> IsAbs (rel_name vs)"
    and "Join [path_of rc, rel_name vs] = path_of (rc @ vs)"
    and "Rel (path_of rc) (path_of (rc @ vs)) = Some (rel_name vs)"
proof -
  show "rel_name vs \<noteq> []" using join_elems_valid [OF assms(2)] by (simp add: rel_name_def)
  show "\<not> IsAbs (rel_name vs)"
    using join_elems_valid [OF assms(2)] by (simp add: rel_name_def Separator_def)
  show "Join [path_of rc, rel_name vs] = path_of (rc @ vs)"
    using Join_path_dot [OF assms(1)] Join_path_rel [OF assms]
    by (simp add: rel_name_def del: Join.simps)
  show "Rel (path_of rc) (path_of (rc @ vs)) = Some (rel_name vs)"
    using Rel_under [OF assms] by (simp add: rel_name_def)
qed

lemma fs_ok_key:
  assumes "fs_ok f" and "(q, v) \<in> set f"
  shows "list_all valid_name q"
    and "\<forall>p \<in> set (prefixes q). p = q \<or> node_at f p = Some Directory"
proof -
  have k: "list_all valid_name (fst (q, v)) \<and>
      list_all (\<lambda>p. p = fst (q, v) \<or> node_at f p = Some Directory) (prefixes (fst (q, v)))"
    using assms unfolding fs_ok_def list_all_iff by blast
  show "list_all valid_name q" using k by simp
  show "\<forall>p \<in> set (prefixes q). p = q \<or> node_at f p = Some Directory"
    using k unfolding list_all_iff by simp
qed

lemma node_at_key:
  "node_at f q = Some (File d) \<Longrightarrow> q \<noteq> [] \<and> (q, File d) \<in> set f"
  by (auto simp: node_at_def split: if_splits dest: map_of_SomeD)

lemma walk_nodes_member:
  assumes "q \<in> set (walk_nodes f rc)"
  shows "prefix rc q \<and> (q = rc \<or> q \<in> fst ` set f)"
proof -
  have "q \<in> set (remdups (rc # map fst f))" "prefix rc q"
    using assms by (simp_all add: walk_nodes_def)
  then show ?thesis by (simp only: set_remdups) auto
qed

lemma walk_entry_path:
  assumes "list_all valid_name rc" and "list_all valid_name vs"
  shows "fst (walk_entry f (path_of rc) rc (rc @ vs)) = path_of (rc @ vs)"
proof (cases "vs = []")
  case True then show ?thesis by (simp add: walk_entry_def)
next
  case False
  then show ?thesis
    using Join_path_rel [OF assms] by (simp add: walk_entry_def del: Join.simps)
qed

lemma loadTopic_Inr:
  assumes "list_all valid_name q" and "loadTopic e f (path_of q) = Inr topic"
  shows "\<exists>d t0. node_at f q = Some (File d) \<and> as_topic d = Some t0 \<and>
           topic = t0\<lparr>Filename := path_of q\<rparr>"
  using assms
  by (auto simp: loadTopic_def os_path_path_of os_stat_Inr
           split: sum.splits node.splits option.splits)

lemma visit_member:
  assumes "t \<in> set (visit e f root [] d)"
  shows "\<exists>topic. loadTopic e f (fst d) = Inr topic \<and>
           t = (case Rel root (fst d) of Some rel \<Rightarrow> topic\<lparr>Filename := rel\<rparr> | None \<Rightarrow> topic)"
proof -
  obtain path name isdir where d: "d = (path, name, isdir)" by (cases d) auto
  show ?thesis
    using assms unfolding d by (auto simp: visit_def split: sum.splits if_splits)
qed

lemma LoadTopics_member:
  assumes ok: "fs_ok f" and lt: "LoadTopics e f dir = Inr topics" and t: "t \<in> set topics"
  shows "\<exists>rc vs d t0. list_all valid_name rc \<and> list_all valid_name vs \<and>
           Abs e dir = Inr (path_of rc) \<and>
           node_at f (rc @ vs) = Some (File d) \<and> as_topic d = Some t0 \<and>
           t = t0\<lparr>Filename := rel_name vs\<rparr>"
proof -
  from lt t obtain root entries where
      a: "Abs e dir = Inr root" and w: "WalkDir e f root = Inr entries" and
      ts: "topics = sort_slice (\<lambda>a b. Timestamp a > Timestamp b) (foldl (visit e f root) [] entries)"
    using LoadTopics_cases [OF lt] by auto
  obtain rc where rc: "list_all valid_name rc" "root = path_of rc"
    using Abs_valid [OF a] by blast
  have "set topics = set (foldl (visit e f root) [] entries)"
    using ts mset_sort_slice by (metis set_mset_mset)
  then have "t \<in> set (concat (map (visit e f root []) entries))"
    using t by (simp add: foldl_visit)
  then obtain d where d: "d \<in> set entries" "t \<in> set (visit e f root [] d)" by auto
  have "entries = map (walk_entry f root rc) (walk_nodes f rc)"
    using w rc by (auto simp: WalkDir_def os_path_path_of split: sum.splits)
  then obtain q where q: "q \<in> set (walk_nodes f rc)" "d = walk_entry f root rc q"
    using d(1) by auto
  obtain vs where vs: "q = rc @ vs"
    using walk_nodes_member [OF q(1)] by (auto simp: prefix_def)
  have vq: "list_all valid_name q"
  proof (cases "q = rc")
    case True then show ?thesis using rc by simp
  next
    case False
    then obtain v where "(q, v) \<in> set f" using walk_nodes_member [OF q(1)] by auto
    then show ?thesis using fs_ok_key(1) [OF ok] by blast
  qed
  then have vvs: "list_all valid_name vs" using vs by simp
  have fp: "fst d = path_of (rc @ vs)"
    using walk_entry_path [OF rc(1) vvs, of f] q(2) vs rc(2) by simp
  obtain topic where tp: "loadTopic e f (path_of (rc @ vs)) = Inr topic"
      "t = (case Rel root (path_of (rc @ vs)) of Some rel \<Rightarrow> topic\<lparr>Filename := rel\<rparr>
            | None \<Rightarrow> topic)"
    using visit_member [OF d(2)] fp by auto
  obtain dd t0 where l: "node_at f (rc @ vs) = Some (File dd)" "as_topic dd = Some t0"
      "topic = t0\<lparr>Filename := path_of (rc @ vs)\<rparr>"
    using loadTopic_Inr [OF _ tp(1)] vq vs by auto
  have "t = t0\<lparr>Filename := rel_name vs\<rparr>"
    using tp(2) l(3) rel_name_props(4) [OF rc(1) vvs] rc(2) by simp
  with rc vvs a l show ?thesis by blast
qed

lemma fold_mkdir_present:
  "\<forall>q\<in>set qs. node_at f q \<noteq> None \<Longrightarrow> fold mkdir_missing qs f = f"
  by (induction qs arbitrary: f) (auto simp: mkdir_missing_def)

lemma SaveTopic_existing:
  assumes a: "Abs e dir = Inr (path_of rc)"
    and rc: "list_all valid_name rc" and vs: "list_all valid_name vs"
    and q: "rc @ vs = dc @ [n]"
    and pre: "\<forall>p\<in>set (prefixes dc). node_at f p = Some Directory"
    and fl: "node_at f (dc @ [n]) = Some (File d0)"
    and fn: "Filename t = rel_name vs"
  shows "SaveTopic e f t dir =
           (if node_at f (dc @ [n @ ''.tmp'']) = Some Directory
            then (f, Some (WriteTempFile EISDIR))
            else (AList.update (dc @ [n]) (File (MarshalIndent t))
                    (AList.delete (dc @ [n @ ''.tmp''])
                       (AList.update (dc @ [n @ ''.tmp'']) (File (MarshalIndent t)) f)), None))"
proof -
  let ?q = "dc @ [n]" and ?t = "dc @ [n @ ''.tmp'']" and ?d = "MarshalIndent t"
  have vq: "list_all valid_name ?q" using rc vs q by (metis list_all_append)
  then have vd: "list_all valid_name dc" and vn: "valid_name n" by simp_all
  have vt: "list_all valid_name ?t" using vd vn by (simp add: valid_name_tmp)
  have cp: "choose_path e f t (path_of rc) = Inr (f, path_of ?q)"
    using rel_name_props(1,2,3) [OF rc vs] fn q
    by (simp add: choose_path_def del: Join.simps)
  have nf: "\<not> list_ex (is_file f) (prefixes dc)"
    using pre by (auto simp: list_ex_iff is_file_iff)
  have "fold mkdir_missing (prefixes dc) f = f"
    using pre by (intro fold_mkdir_present) auto
  then have mk: "os_mkdir_all e f (Dir (path_of ?q)) = Inr f"
    using nf vd vn by (simp add: Dir_path_of os_mkdir_all_def os_path_path_of)
  have sd: "os_stat f dc = Inr Directory"
    using pre by (simp add: os_stat_Inr)
  have ts: "path_of ?q @ ''.tmp'' = path_of ?t" by (rule path_of_snoc_append)
  have wr: "os_write_file e f (path_of ?t) ?d =
      (if node_at f ?t = Some Directory then Inl EISDIR else Inr (AList.update ?t (File ?d) f))"
    using vt sd
    by (auto simp: os_write_file_def os_path_path_of split: option.splits node.splits)
  let ?f3 = "AList.update ?t (File ?d) f"
  have n3: "node_at ?f3 p = (if p = ?t then Some (File ?d) else node_at f p)" for p
    by (simp add: node_at_update)
  have st: "os_stat ?f3 ?t = Inr (File ?d)" using n3 [of ?t] by (simp add: os_stat_Inr)
  have dt: "dc \<noteq> ?t" by simp
  have sd3: "os_stat ?f3 dc = Inr Directory"
    using n3 [of dc] pre by (simp add: os_stat_Inr)
  have qt: "?q \<noteq> ?t" by simp
  have nq: "node_at ?f3 ?q = Some (File d0)" using n3 [of ?q] fl by simp
  have rn: "os_rename e ?f3 (path_of ?t) (path_of ?q) =
      Inr (AList.update ?q (File ?d) (AList.delete ?t ?f3))"
    using vt vq st sd3 nq by (simp add: os_rename_def os_path_path_of)
  show ?thesis
    using a cp mk wr rn
    by (simp add: SaveTopic_def SaveTopic_local_def ts Let_def)
qed

lemma reply_loop_find:
  "reply_loop e f title reply dir topics =
     (case find (\<lambda>t. Title t = title) topics of
        None \<Rightarrow> (f, Some (TopicNotFound title))
      | Some t \<Rightarrow> SaveTopic e f (t\<lparr>Replies := Replies t @ [reply]\<rparr>) dir)"
  by (induction topics) auto

lemma find_Some_member: "find P xs = Some x \<Longrightarrow> x \<in> set xs \<and> P x"
  by (induction xs) (auto split: if_splits)

text \<open>
  Claim C4 (corrected). On a well-formed file system whose scan succeeds, \<open>AddReplyToTopic\<close>
  returns the error \<open>topic not found\<close> exactly when no scanned record has the given
  title. Otherwise it takes the first record of the scan with that title, which was
  read from a file \<open>q\<close> below the store root, and saves it with the reply appended to
  its replies. The save goes through the temporary file \<open>q.tmp\<close>: unless a directory
  stands at that path (an I/O failure that leaves the store untouched), the call
  succeeds, the file \<open>q\<close> holds the record with the reply appended, and every path
  other than \<open>q\<close> and \<open>q.tmp\<close> is as before.
\<close>

theorem AddReplyToTopic_spec:
  assumes ok: "fs_ok f" and lt: "LoadTopics e f dir = Inr topics"
  shows "(snd (AddReplyToTopic e f title reply dir) = Some (TopicNotFound title) \<longleftrightarrow>
            (\<forall>t \<in> set topics. Title t \<noteq> title)) \<and>
         (\<forall>t. find (\<lambda>t. Title t = title) topics = Some t \<longrightarrow>
            (\<exists>root q d t0.
               Abs e dir = Inr root \<and> Join [root, Filename t] = path_of q \<and> q \<noteq> [] \<and>
               node_at f q = Some (File d) \<and> as_topic d = Some t0 \<and>
               t = t0\<lparr>Filename := Filename t\<rparr> \<and>
               AddReplyToTopic e f title reply dir =
                 SaveTopic e f (t\<lparr>Replies := Replies t @ [reply]\<rparr>) dir \<and>
               (node_at f (butlast q @ [last q @ ''.tmp'']) = Some Directory \<longrightarrow>
                  AddReplyToTopic e f title reply dir = (f, Some (WriteTempFile EISDIR))) \<and>
               (node_at f (butlast q @ [last q @ ''.tmp'']) \<noteq> Some Directory \<longrightarrow>
                  (\<exists>f'. AddReplyToTopic e f title reply dir = (f', None) \<and>
                     node_at f' q =
                       Some (File (MarshalIndent (t\<lparr>Replies := Replies t @ [reply]\<rparr>))) \<and>
                     (\<forall>p. p \<noteq> q \<and> p \<noteq> butlast q @ [last q @ ''.tmp''] \<longrightarrow>
                          node_at f' p = node_at f p)))))"
proof -
  have ar: "AddReplyToTopic e f title reply dir =
      (case find (\<lambda>t. Title t = title) topics of
        None \<Rightarrow> (f, Some (TopicNotFound title))
      | Some t \<Rightarrow> SaveTopic e f (t\<lparr>Replies := Replies t @ [reply]\<rparr>) dir)"
    using lt by (simp add: AddReplyToTopic_def reply_loop_find)
  have A: "snd (AddReplyToTopic e f title reply dir) = Some (TopicNotFound title) \<longleftrightarrow>
            (\<forall>t \<in> set topics. Title t \<noteq> title)"
  proof (cases "find (\<lambda>t. Title t = title) topics")
    case None
    have "AddReplyToTopic e f title reply dir = (f, Some (TopicNotFound title))"
      using ar None by simp
    moreover have "\<forall>t \<in> set topics. Title t \<noteq> title"
      using None by (simp add: find_None_iff)
    ultimately show ?thesis by simp
  next
    case (Some t)
    then have m: "t \<in> set topics" "Title t = title" using find_Some_member by fastforce+
    have "snd (SaveTopic e f (t\<lparr>Replies := Replies t @ [reply]\<rparr>) dir) \<noteq>
        Some (TopicNotFound title)"
      using SaveTopic_error_kinds [of e f _ dir _ _ title] by (metis prod.collapse)
    then show ?thesis using ar Some m by auto
  qed
  have B: "\<exists>root q d t0.
               Abs e dir = Inr root \<and> Join [root, Filename t] = path_of q \<and> q \<noteq> [] \<and>
               node_at f q = Some (File d) \<and> as_topic d = Some t0 \<and>
               t = t0\<lparr>Filename := Filename t\<rparr> \<and>
               AddReplyToTopic e f title reply dir =
                 SaveTopic e f (t\<lparr>Replies := Replies t @ [reply]\<rparr>) dir \<and>
               (node_at f (butlast q @ [last q @ ''.tmp'']) = Some Directory \<longrightarrow>
                  AddReplyToTopic e f title reply dir = (f, Some (WriteTempFile EISDIR))) \<and>
               (node_at f (butlast q @ [last q @ ''.tmp'']) \<noteq> Some Directory \<longrightarrow>
                  (\<exists>f'. AddReplyToTopic e f title reply dir = (f', None) \<and>
                     node_at f' q =
                       Some (File (MarshalIndent (t\<lparr>Replies := Replies t @ [reply]\<rparr>))) \<and>
                     (\<forall>p. p \<noteq> q \<and> p \<noteq> butlast q @ [last q @ ''.tmp''] \<longrightarrow>
                          node_at f' p = node_at f p)))"
    if fd: "find (\<lambda>t. Title t = title) topics = Some t" for t
  proof -
    let ?t' = "t\<lparr>Replies := Replies t @ [reply]\<rparr>"
    have m: "t \<in> set topics" using find_Some_member [OF fd] by simp
    obtain rc vs d t0 where
        rc: "list_all valid_name rc" and vs: "list_all valid_name vs" and
        a: "Abs e dir = Inr (path_of rc)" and
        nd: "node_at f (rc @ vs) = Some (File d)" and at: "as_topic d = Some t0" and
        tt: "t = t0\<lparr>Filename := rel_name vs\<rparr>"
      using LoadTopics_member [OF ok lt m] by blast
    let ?q = "rc @ vs"
    have fnt: "Filename t = rel_name vs" using tt by simp
    have key: "?q \<noteq> []" "(?q, File d) \<in> set f" using node_at_key [OF nd] by simp_all
    define dc where "dc = butlast ?q"
    define n where "n = last ?q"
    have q: "?q = dc @ [n]" using key(1) by (simp add: dc_def n_def)
    have pre: "\<forall>p\<in>set (prefixes dc). node_at f p = Some Directory"
    proof
      fix p assume "p \<in> set (prefixes dc)"
      then have "prefix p dc" by simp
      then have "prefix p ?q" "p \<noteq> ?q"
        using q by (auto simp: prefix_def)
      then show "node_at f p = Some Directory"
        using fs_ok_key(2) [OF ok key(2)] by auto
    qed
    have fl: "node_at f (dc @ [n]) = Some (File d)" using nd q by simp
    have fn': "Filename ?t' = rel_name vs" using fnt by simp
    note sv = SaveTopic_existing [OF a rc vs q pre fl fn']
    have j: "Join [path_of rc, Filename t] = path_of ?q"
      using rel_name_props(3) [OF rc vs] fnt by simp
    have ar': "AddReplyToTopic e f title reply dir = SaveTopic e f ?t' dir"
      using ar fd by simp
    let ?tmp = "dc @ [n @ ''.tmp'']"
    let ?f' = "AList.update (dc @ [n]) (File (MarshalIndent ?t'))
                    (AList.delete ?tmp (AList.update ?tmp (File (MarshalIndent ?t')) f))"
    have nf: "node_at ?f' p =
        (if p = dc @ [n] then Some (File (MarshalIndent ?t'))
         else if p = ?tmp then None else node_at f p)" for p
      by (simp add: node_at_update node_at_delete)
    have C1: "node_at f ?tmp = Some Directory \<longrightarrow>
        AddReplyToTopic e f title reply dir = (f, Some (WriteTempFile EISDIR))"
      using ar' sv by simp
    have C2: "node_at f ?tmp \<noteq> Some Directory \<longrightarrow>
        (\<exists>f'. AddReplyToTopic e f title reply dir = (f', None) \<and>
           node_at f' (dc @ [n]) = Some (File (MarshalIndent ?t')) \<and>
           (\<forall>p. p \<noteq> dc @ [n] \<and> p \<noteq> ?tmp \<longrightarrow> node_at f' p = node_at f p))"
    proof
      assume nt: "node_at f ?tmp \<noteq> Some Directory"
      then have "AddReplyToTopic e f title reply dir = (?f', None)" using ar' sv by simp
      moreover have "node_at ?f' (dc @ [n]) = Some (File (MarshalIndent ?t'))"
        using nf by simp
      moreover have "\<forall>p. p \<noteq> dc @ [n] \<and> p \<noteq> ?tmp \<longrightarrow> node_at ?f' p = node_at f p"
        using nf by simp
      ultimately show "\<exists>f'. AddReplyToTopic e f title reply dir = (f', None) \<and>
           node_at f' (dc @ [n]) = Some (File (MarshalIndent ?t')) \<and>
           (\<forall>p. p \<noteq> dc @ [n] \<and> p \<noteq> ?tmp \<longrightarrow> node_at f' p = node_at f p)"
        by blast
    qed
    have bl: "butlast ?q = dc" "last ?q = n" by (simp_all add: dc_def n_def)
    have tt': "t = t0\<lparr>Filename := Filename t\<rparr>" using tt by simp
    show ?thesis
      apply (rule exI [of _ "path_of rc"])
      apply (rule exI [of _ ?q])
      apply (rule exI [of _ d])
      apply (rule exI [of _ t0])
      using a j key(1) nd at tt' ar' C1 C2 unfolding bl q [symmetric]
      by blast
  qed
  from A B show ?thesis by blast
qed

theorem AddReplyToTopic_spec_witness:
  "fs_ok fs_three \<and>
   LoadTopics env0 fs_three ''data/community'' =
     Inr [(topic0 ''B'' ''2024-01-03T00:00:00Z'')\<lparr>Filename := ''b.JSON''\<rparr>,
          (topic0 ''C'' ''2024-01-02T00:00:00Z'')\<lparr>Filename := ''sub/c.json''\<rparr>,
          (topic0 ''A'' ''2024-01-01T00:00:00Z'')\<lparr>Filename := ''a.json''\<rparr>] \<and>
   snd (AddReplyToTopic env0 fs_three ''Z'' reply0 ''data/community'') = Some (TopicNotFound ''Z'') \<and>
   snd (AddReplyToTopic env0 fs_three ''C'' reply0 ''data/community'') \<noteq> Some (TopicNotFound ''C'') \<and>
   AddReplyToTopic env0 fs_three ''C'' reply0 ''data/community'' = (fs_three_replied, None) \<and>
   LoadTopics env0 fs_three_replied ''data/community'' =
     Inr [(topic0 ''B'' ''2024-01-03T00:00:00Z'')\<lparr>Filename := ''b.JSON''\<rparr>,
          (topic0 ''C'' ''2024-01-02T00:00:00Z'')\<lparr>Replies := [reply0], Filename := ''sub/c.json''\<rparr>,
          (topic0 ''A'' ''2024-01-01T00:00:00Z'')\<lparr>Filename := ''a.json''\<rparr>]"
proof -
  let ?ts = "[(topic0 ''B'' ''2024-01-03T00:00:00Z'')\<lparr>Filename := ''b.JSON''\<rparr>,
          (topic0 ''C'' ''2024-01-02T00:00:00Z'')\<lparr>Filename := ''sub/c.json''\<rparr>,
          (topic0 ''A'' ''2024-01-01T00:00:00Z'')\<lparr>Filename := ''a.json''\<rparr>]"
  have ok: "fs_ok fs_three" by code_simp
  have lt: "LoadTopics env0 fs_three ''data/community'' = Inr ?ts" by code_simp
  have nz: "\<forall>t \<in> set ?ts. Title t \<noteq> ''Z''" by code_simp
  have nc: "\<not> (\<forall>t \<in> set ?ts. Title t \<noteq> ''C'')" by code_simp
  have z: "snd (AddReplyToTopic env0 fs_three ''Z'' reply0 ''data/community'') =
      Some (TopicNotFound ''Z'')"
    using AddReplyToTopic_spec [OF ok lt, of "''Z''" reply0] nz by blast
  have c: "snd (AddReplyToTopic env0 fs_three ''C'' reply0 ''data/community'') \<noteq>
      Some (TopicNotFound ''C'')"
    using AddReplyToTopic_spec [OF ok lt, of "''C''" reply0] nc by blast
  have r: "AddReplyToTopic env0 fs_three ''C'' reply0 ''data/community'' = (fs_three_replied, None)"
    by code_simp
  have l2: "LoadTopics env0 fs_three_replied ''data/community'' =
     Inr [(topic0 ''B'' ''2024-01-03T00:00:00Z'')\<lparr>Filename := ''b.JSON''\<rparr>,
          (topic0 ''C'' ''2024-01-02T00:00:00Z'')\<lparr>Replies := [reply0], Filename := ''sub/c.json''\<rparr>,
          (topic0 ''A'' ''2024-01-01T00:00:00Z'')\<lparr>Filename := ''a.json''\<rparr>]"
    by code_simp
  from ok lt z c r l2 show ?thesis by blast
qed

text \<open>
  Two stores on which the call fails with an I/O error. In the first a directory
  stands at \<open>a.json.tmp\<close>: the record titled \<open>A\<close> is found, the temporary file cannot
  be written, no reply is appended and the store is as before. In the second the
  path to the store root runs through a file: the scan fails, and the error is the
  scan's, not \<open>topic not found\<close>, although no record has the title.
\<close>

theorem AddReplyToTopic_io_failures:
  "fs_ok fs_tmpdir \<and>
   LoadTopics env0 fs_tmpdir ''data/community'' =
     Inr [(topic0 ''A'' ''2024-01-01T00:00:00Z'')\<lparr>Filename := ''a.json''\<rparr>] \<and>
   AddReplyToTopic env0 fs_tmpdir ''A'' reply0 ''data/community'' =
     (fs_tmpdir, Some (WriteTempFile EISDIR)) \<and>
   fs_ok fs_datafile \<and>
   LoadTopics env0 fs_datafile ''data/community'' = Inl (WalkCommunityDir ENOTDIR) \<and>
   AddReplyToTopic env0 fs_datafile ''A'' reply0 ''data/community'' =
     (fs_datafile, Some (WalkCommunityDir ENOTDIR))"
  by code_simp

section \<open>Seeding an empty store\<close>

lemma seed_topic_simps [simp]:
  "Title (seed_topic now s) = SeedTitle s" "Filename (seed_topic now s) = []"
  by (simp_all add: seed_topic_def)

lemma seed_loop_step:
  assumes "seed_loop e clock i f (s # ss) = (f', None)"
  shows "\<exists>fa. SaveTopic e f (seed_topic (clock i) s) ''data/community'' = (fa, None) \<and>
              seed_loop e clock (Suc i) fa ss = (f', None)"
  using assms by (auto split: prod.splits option.splits)

lemma seed_save_effect:
  assumes a: "Abs e ''data/community'' = Inr (path_of rc)" and rc: "list_all valid_name rc"
    and n: "Separator \<notin> set (seed_name e s)"
    and pres: "\<forall>p\<in>set (prefixes rc). node_at f p \<noteq> None"
    and sv: "SaveTopic e f (seed_topic now s) ''data/community'' = (fa, None)"
  shows "node_at fa q =
           (if q = rc @ [seed_name e s] then Some (File (MarshalIndent (seed_topic now s)))
            else if q = rc @ [seed_name e s @ ''.tmp''] then None
            else node_at f q)"
proof -
  have x: "\<not> (q \<in> set (prefixes rc) \<and> node_at f q = None)" using pres by blast
  have "Separator \<notin> set (generated_filename e (Title (seed_topic now s)))"
    using n by (simp add: seed_name_def)
  from SaveTopic_new_effect [OF sv a rc _ this, of q] x show ?thesis
    by (auto simp: seed_name_def)
qed

lemma seed_loop_frame:
  assumes a: "Abs e ''data/community'' = Inr (path_of rc)" and rc: "list_all valid_name rc"
  shows "\<forall>s\<in>set seeds. Separator \<notin> set (seed_name e s) \<Longrightarrow>
         \<forall>p\<in>set (prefixes rc). node_at f p \<noteq> None \<Longrightarrow>
         seed_loop e clock i f seeds = (f', None) \<Longrightarrow>
         q \<notin> (\<lambda>s. rc @ [seed_name e s]) ` set seeds \<Longrightarrow>
         node_at f' q =
           (if q \<in> (\<lambda>s. rc @ [seed_name e s @ ''.tmp'']) ` set seeds then None
            else node_at f q)"
proof (induction seeds arbitrary: i f)
  case Nil then show ?case by simp
next
  case (Cons s ss)
  obtain fa where fa: "SaveTopic e f (seed_topic (clock i) s) ''data/community'' = (fa, None)"
      "seed_loop e clock (Suc i) fa ss = (f', None)"
    using seed_loop_step [OF Cons.prems(3)] by blast
  have n: "Separator \<notin> set (seed_name e s)" using Cons.prems(1) by simp
  note ef = seed_save_effect [OF a rc n Cons.prems(2) fa(1)]
  have pres': "\<forall>p\<in>set (prefixes rc). node_at fa p \<noteq> None"
  proof
    fix p assume p: "p \<in> set (prefixes rc)"
    then have "length p \<le> length rc" by (simp add: prefix_length_le)
    then have "p \<noteq> rc @ [seed_name e s]" "p \<noteq> rc @ [seed_name e s @ ''.tmp'']" by auto
    then show "node_at fa p \<noteq> None" using ef [of p] Cons.prems(2) p by simp
  qed
  have ih: "node_at f' q =
      (if q \<in> (\<lambda>s. rc @ [seed_name e s @ ''.tmp'']) ` set ss then None else node_at fa q)"
    using Cons.IH [OF _ pres' fa(2)] Cons.prems(1,4) by simp
  have "q \<noteq> rc @ [seed_name e s]" using Cons.prems(4) by auto
  then show ?case using ih ef [of q] by auto
qed

lemma seed_loop_targets:
  assumes a: "Abs e ''data/community'' = Inr (path_of rc)" and rc: "list_all valid_name rc"
  shows "\<forall>s\<in>set seeds. Separator \<notin> set (seed_name e s) \<Longrightarrow>
         distinct (map (seed_name e) seeds) \<Longrightarrow>
         \<forall>p\<in>set (prefixes rc). node_at f p \<noteq> None \<Longrightarrow>
         seed_loop e clock i f seeds = (f', None) \<Longrightarrow>
         j < length seeds \<Longrightarrow>
         node_at f' (rc @ [seed_name e (seeds ! j)]) =
           Some (File (MarshalIndent (seed_topic (clock (i + j)) (seeds ! j))))"
proof (induction seeds arbitrary: i f j)
  case Nil then show ?case by simp
next
  case (Cons s ss)
  obtain fa where fa: "SaveTopic e f (seed_topic (clock i) s) ''data/community'' = (fa, None)"
      "seed_loop e clock (Suc i) fa ss = (f', None)"
    using seed_loop_step [OF Cons.prems(4)] by blast
  have n: "Separator \<notin> set (seed_name e s)" using Cons.prems(1) by simp
  note ef = seed_save_effect [OF a rc n Cons.prems(3) fa(1)]
  have pres': "\<forall>p\<in>set (prefixes rc). node_at fa p \<noteq> None"
  proof
    fix p assume p: "p \<in> set (prefixes rc)"
    then have "length p \<le> length rc" by (simp add: prefix_length_le)
    then have "p \<noteq> rc @ [seed_name e s]" "p \<noteq> rc @ [seed_name e s @ ''.tmp'']" by auto
    then show "node_at fa p \<noteq> None" using ef [of p] Cons.prems(3) p by simp
  qed
  have ns: "\<forall>s\<in>set ss. Separator \<notin> set (seed_name e s)" using Cons.prems(1) by simp
  show ?case
  proof (cases j)
    case 0
    have nt: "rc @ [seed_name e s] \<notin> (\<lambda>s. rc @ [seed_name e s]) ` set ss"
      using Cons.prems(2) by auto
    have ntmp: "rc @ [seed_name e s] \<notin> (\<lambda>s. rc @ [seed_name e s @ ''.tmp'']) ` set ss"
      using generated_not_tmp by (auto simp: seed_name_def)
    have "node_at f' (rc @ [seed_name e s]) = node_at fa (rc @ [seed_name e s])"
      using seed_loop_frame [OF a rc ns pres' fa(2) nt] ntmp by simp
    then show ?thesis using 0 ef [of "rc @ [seed_name e s]"] by simp
  next
    case (Suc k)
    then have "k < length ss" using Cons.prems(5) by simp
    then have "node_at f' (rc @ [seed_name e (ss ! k)]) =
        Some (File (MarshalIndent (seed_topic (clock (Suc i + k)) (ss ! k))))"
      using Cons.IH [OF ns _ pres' fa(2)] Cons.prems(2) by simp
    then show ?thesis using Suc by simp
  qed
qed

lemma os_path_Abs:
  assumes "p \<noteq> []" and "Abs e p = Inr root"
  shows "os_path e p = Some (elements root)"
proof (cases "IsAbs p")
  case True
  then show ?thesis using assms by (auto simp: Abs_def os_path_def)
next
  case False
  then obtain w where w: "cwd e = Some w" "root = Join [path_of w, p]"
    using assms(2) by (auto simp: Abs_def Getwd_def split: option.splits)
  then have "root = Clean (path_of w @ Separator # p)"
    by (simp add: Join_two del: Join.simps)
  then show ?thesis using False assms(1) w(1) by (simp add: os_path_def)
qed

lemma key_iff: "q \<noteq> [] \<Longrightarrow> q \<in> fst ` set f \<longleftrightarrow> node_at f q \<noteq> None"
  by (simp add: node_at_def map_of_eq_None_iff)

lemma sort_eq_distinct:
  fixes xs ys :: "'a::linorder list"
  assumes "distinct xs" and "distinct ys" and "set xs = set ys"
  shows "sort xs = sort ys"
proof -
  have "mset xs = mset ys" using assms by (simp add: set_eq_iff_mset_eq_distinct)
  then have "mset (sort ys) = mset xs" by simp
  then show ?thesis by (rule properties_for_sort) simp
qed

lemma loadConfig_mono:
  assumes "loadConfig e f p = Inr c" and "\<And>q. node_at f q \<noteq> None \<Longrightarrow> node_at f1 q = node_at f q"
  shows "loadConfig e f1 p = Inr c"
proof -
  obtain cs d where cs: "os_path e p = Some cs" "node_at f cs = Some (File d)" "as_config d = Some c"
    using assms(1)
    by (auto simp: loadConfig_def os_stat_Inr split: option.splits sum.splits node.splits)
  then have "node_at f1 cs = Some (File d)" using assms(2) [of cs] by simp
  then have "os_stat f1 cs = Inr (File d)" by (simp add: os_stat_Inr)
  then show ?thesis using cs by (simp add: loadConfig_def)
qed

lemma read_dir_children:
  assumes p: "os_path e p = Some rc" and d: "node_at f rc = Some Directory"
    and ch: "\<And>x. node_at f (rc @ [x]) \<noteq> None \<longleftrightarrow> x \<in> set names"
    and dn: "distinct names"
  shows "os_read_dir e f p = Inr (sort names)"
proof -
  let ?L = "filter (\<lambda>q. q \<noteq> [] \<and> butlast q = rc) (remdups (map fst f))"
  have q: "q = rc @ [last q]" if "q \<in> set ?L" for q
  proof -
    have "q \<noteq> []" "butlast q = rc" using that by auto
    then show ?thesis by (metis append_butlast_last_id)
  qed
  have "inj_on last (set ?L)"
  proof (rule inj_onI)
    fix a b assume ab: "a \<in> set ?L" "b \<in> set ?L" "last a = last b"
    have "a = rc @ [last a]" using q [OF ab(1)] .
    also have "\<dots> = rc @ [last b]" using ab(3) by simp
    also have "\<dots> = b" using q [OF ab(2)] by simp
    finally show "a = b" .
  qed
  then have dl: "distinct (map last ?L)" by (simp add: distinct_map)
  have "set (map last ?L) = set names"
  proof (intro set_eqI iffI)
    fix x assume "x \<in> set (map last ?L)"
    then obtain q where qq: "q \<in> set ?L" "x = last q" by auto
    then have "q \<noteq> []" "q \<in> fst ` set f" by auto
    then have "node_at f q \<noteq> None" by (simp add: key_iff)
    moreover have "q = rc @ [x]" using q [OF qq(1)] qq(2) by simp
    ultimately have "node_at f (rc @ [x]) \<noteq> None" by simp
    then show "x \<in> set names" using ch by blast
  next
    fix x assume "x \<in> set names"
    then have "node_at f (rc @ [x]) \<noteq> None" using ch by blast
    then have "rc @ [x] \<in> fst ` set f" using key_iff [of "rc @ [x]" f] by simp
    then have "rc @ [x] \<in> set ?L" by simp
    then have "last (rc @ [x]) \<in> last ` set ?L" by (rule imageI)
    then show "x \<in> set (map last ?L)" by simp
  qed
  then have "sort (map last ?L) = sort names" using dl dn by (intro sort_eq_distinct)
  moreover have "os_stat f rc = Inr Directory" using d by (simp add: os_stat_Inr)
  ultimately show ?thesis using p by (simp add: os_read_dir_def)
qed

lemma read_dir_empty_children:
  assumes p: "os_path e p = Some rc" and r: "os_read_dir e f p = Inr []"
  shows "node_at f rc = Some Directory" and "node_at f (rc @ [x]) = None"
proof -
  let ?L = "filter (\<lambda>q. q \<noteq> [] \<and> butlast q = rc) (remdups (map fst f))"
  have s: "os_stat f rc = Inr Directory \<and> sort (map last ?L) = []"
    using p r by (auto simp: os_read_dir_def split: sum.splits node.splits)
  then show "node_at f rc = Some Directory" by (simp add: os_stat_Inr)
  have "mset (sort (map last ?L)) = {#}" using s by simp
  then have "?L = []" by simp
  then have "rc @ [x] \<notin> set ?L" by simp
  then have "rc @ [x] \<notin> fst ` set f" by simp
  then show "node_at f (rc @ [x]) = None" using key_iff [of "rc @ [x]" f] by simp
qed

lemma read_dir_ENOENT:
  assumes p: "os_path e p = Some rc" and r: "os_read_dir e f p = Inl ENOENT"
  shows "node_at f rc = None"
  using assms
  by (auto simp: os_read_dir_def os_stat_def split: sum.splits node.splits option.splits if_splits)

lemma InitializeIfEmpty_nonempty:
  assumes "os_read_dir e f ''data/community'' = Inr names" and "names \<noteq> []"
  shows "InitializeIfEmpty e clock f configPath = (f, None)"
  using assms by (simp add: InitializeIfEmpty_def Let_def)

lemma InitializeIfEmpty_seeding:
  assumes ok: "fs_ok f" and a: "Abs e ''data/community'' = Inr (path_of rc)"
    and rc: "list_all valid_name rc"
    and em: "os_read_dir e f ''data/community'' = Inr [] \<or>
             os_read_dir e f ''data/community'' = Inl ENOENT"
    and lc: "loadConfig e f configPath = Inr config"
    and run: "InitializeIfEmpty e clock f configPath = (f', None)"
  shows "\<exists>f1. seed_loop e clock 0 f1 (SeedTopics config) = (f', None) \<and>
              (\<forall>p\<in>set (prefixes rc). node_at f1 p \<noteq> None) \<and>
              node_at f1 rc = Some Directory \<and> (\<forall>x. node_at f1 (rc @ [x]) = None)"
proof -
  have op: "os_path e ''data/community'' = Some rc"
    using os_path_Abs [OF _ a] rc by (simp add: elements_path_of)
  from em show ?thesis
  proof
    assume r: "os_read_dir e f ''data/community'' = Inr []"
    have d: "node_at f rc = Some Directory" and c: "\<And>x. node_at f (rc @ [x]) = None"
      using read_dir_empty_children [OF op r] by simp_all
    have pres: "\<forall>p\<in>set (prefixes rc). node_at f p \<noteq> None"
    proof
      fix p assume p: "p \<in> set (prefixes rc)"
      show "node_at f p \<noteq> None"
      proof (cases "rc = []")
        case True then show ?thesis using p by (simp add: node_at_def)
      next
        case False
        then have "(rc, Directory) \<in> set f"
          using d by (auto simp: node_at_def dest: map_of_SomeD)
        then show ?thesis using fs_ok_key(2) [OF ok] p d by fastforce
      qed
    qed
    have "seed_loop e clock 0 f (SeedTopics config) = (f', None)"
      using run r lc by (simp add: InitializeIfEmpty_def Let_def)
    with pres d c show ?thesis by blast
  next
    assume r: "os_read_dir e f ''data/community'' = Inl ENOENT"
    have nn: "node_at f rc = None" using read_dir_ENOENT [OF op r] .
    obtain f1 where mk: "os_mkdir_all e f ''data/community'' = Inr f1"
      using run r
      by (auto simp: InitializeIfEmpty_def Let_def IsNotExist_def split: sum.splits)
    have mk': "f1 = fold mkdir_missing (prefixes rc) f"
      using mk op by (auto simp: os_mkdir_all_def split: if_splits)
    have n1: "node_at f1 q =
        (if q \<in> set (prefixes rc) \<and> node_at f q = None then Some Directory else node_at f q)" for q
      unfolding mk' by (rule node_at_fold_mkdir)
    have nofile: "\<not> list_ex (is_file f) (prefixes rc)"
      using mk op by (auto simp: os_mkdir_all_def split: if_splits)
    have pres: "\<forall>p\<in>set (prefixes rc). node_at f1 p \<noteq> None"
      using n1 by auto
    have d: "node_at f1 rc = Some Directory"
      using n1 [of rc] nn by simp
    have c: "node_at f1 (rc @ [x]) = None" for x
    proof (rule ccontr)
      assume "node_at f1 (rc @ [x]) \<noteq> None"
      moreover have "rc @ [x] \<notin> set (prefixes rc)" by (rule snoc_not_prefix)
      ultimately obtain v where "node_at f (rc @ [x]) = Some v"
        using n1 [of "rc @ [x]"] by auto
      then have "(rc @ [x], v) \<in> set f"
        by (auto simp: node_at_def dest: map_of_SomeD)
      then have "node_at f rc = Some Directory"
        using fs_ok_key(2) [OF ok, of "rc @ [x]" v] by auto
      then show False using nn by simp
    qed
    have lc1: "loadConfig e f1 configPath = Inr config"
      using lc by (rule loadConfig_mono) (simp add: n1)
    have "seed_loop e clock 0 f1 (SeedTopics config) = (f', None)"
      using run r mk lc1 by (simp add: InitializeIfEmpty_def Let_def IsNotExist_def)
    with pres d c show ?thesis by blast
  qed
qed

text \<open>
  Claim C5 (corrected). On a well-formed file system, \<open>InitializeIfEmpty\<close> returns at
  once and leaves the file system as it is when the community directory lists at
  least one entry. When the directory is empty or missing and the configuration loads,
  a successful call leaves the directory in place; if the names generated from the
  seed titles hold no separator and are pairwise distinct, the directory then lists
  exactly these names, one file for each seed topic, and each file holds the topic
  with the seed's title, body, author and tags, no votes, no replies and the time of
  the clock.
\<close>

theorem InitializeIfEmpty_spec:
  assumes ok: "fs_ok f" and a: "Abs e ''data/community'' = Inr root"
  shows "(\<forall>names. os_read_dir e f ''data/community'' = Inr names \<and> names \<noteq> [] \<longrightarrow>
            InitializeIfEmpty e clock f configPath = (f, None)) \<and>
         (\<forall>f' config.
            (os_read_dir e f ''data/community'' = Inr [] \<or>
             os_read_dir e f ''data/community'' = Inl ENOENT) \<and>
            loadConfig e f configPath = Inr config \<and>
            InitializeIfEmpty e clock f configPath = (f', None) \<and>
            distinct (map (seed_name e) (SeedTopics config)) \<and>
            (\<forall>s\<in>set (SeedTopics config). Separator \<notin> set (seed_name e s)) \<longrightarrow>
            node_at f' (elements root) = Some Directory \<and>
            os_read_dir e f' ''data/community'' =
              Inr (sort (map (seed_name e) (SeedTopics config))) \<and>
            (\<forall>j < length (SeedTopics config).
               node_at f' (elements root @ [seed_name e (SeedTopics config ! j)]) =
                 Some (File (MarshalIndent
                   \<lparr>Title = SeedTitle (SeedTopics config ! j),
                    Body = SeedBody (SeedTopics config ! j),
                    Author = SeedAuthor (SeedTopics config ! j),
                    Upvotes = 0, Downvotes = 0, Timestamp = clock j,
                    Tags = SeedTags (SeedTopics config ! j),
                    Replies = [], Filename = []\<rparr>))))"
proof -
  obtain rc where rc: "list_all valid_name rc" "root = path_of rc"
    using Abs_valid [OF a] by blast
  have er: "elements root = rc" using rc by (simp add: elements_path_of)
  have a': "Abs e ''data/community'' = Inr (path_of rc)" using a rc by simp
  have op: "os_path e ''data/community'' = Some rc"
    using os_path_Abs [OF _ a] er by simp
  have B: "node_at f' rc = Some Directory \<and>
            os_read_dir e f' ''data/community'' =
              Inr (sort (map (seed_name e) (SeedTopics config))) \<and>
            (\<forall>j < length (SeedTopics config).
               node_at f' (rc @ [seed_name e (SeedTopics config ! j)]) =
                 Some (File (MarshalIndent (seed_topic (clock j) (SeedTopics config ! j)))))"
    if em: "os_read_dir e f ''data/community'' = Inr [] \<or>
             os_read_dir e f ''data/community'' = Inl ENOENT"
      and lc: "loadConfig e f configPath = Inr config"
      and run: "InitializeIfEmpty e clock f configPath = (f', None)"
      and dn: "distinct (map (seed_name e) (SeedTopics config))"
      and ns: "\<forall>s\<in>set (SeedTopics config). Separator \<notin> set (seed_name e s)"
    for f' config
  proof -
    let ?seeds = "SeedTopics config"
    obtain f1 where f1: "seed_loop e clock 0 f1 ?seeds = (f', None)"
        "\<forall>p\<in>set (prefixes rc). node_at f1 p \<noteq> None"
        "node_at f1 rc = Some Directory" "\<forall>x. node_at f1 (rc @ [x]) = None"
      using InitializeIfEmpty_seeding [OF ok a' rc(1) em lc run] by blast
    have tg: "node_at f' (rc @ [seed_name e (?seeds ! j)]) =
        Some (File (MarshalIndent (seed_topic (clock j) (?seeds ! j))))" if "j < length ?seeds" for j
      using seed_loop_targets [OF a' rc(1) ns dn f1(2) f1(1) that] by simp
    have fr: "node_at f' q =
        (if q \<in> (\<lambda>s. rc @ [seed_name e s @ ''.tmp'']) ` set ?seeds then None else node_at f1 q)"
      if "q \<notin> (\<lambda>s. rc @ [seed_name e s]) ` set ?seeds" for q
      using seed_loop_frame [OF a' rc(1) ns f1(2) f1(1) that] .
    have r1: "rc \<notin> (\<lambda>s. rc @ [seed_name e s]) ` set ?seeds" by auto
    have r2: "rc \<notin> (\<lambda>s. rc @ [seed_name e s @ ''.tmp'']) ` set ?seeds" by auto
    have d: "node_at f' rc = Some Directory"
      using fr [OF r1] r2 f1(3) by simp
    have ch: "node_at f' (rc @ [x]) \<noteq> None \<longleftrightarrow> x \<in> set (map (seed_name e) ?seeds)" for x
    proof
      assume nn: "node_at f' (rc @ [x]) \<noteq> None"
      show "x \<in> set (map (seed_name e) ?seeds)"
      proof (rule ccontr)
        assume "x \<notin> set (map (seed_name e) ?seeds)"
        then have "rc @ [x] \<notin> (\<lambda>s. rc @ [seed_name e s]) ` set ?seeds" by auto
        then have "node_at f' (rc @ [x]) = None" using fr f1(4) by simp
        then show False using nn by simp
      qed
    next
      assume "x \<in> set (map (seed_name e) ?seeds)"
      then obtain j where "j < length ?seeds" "x = seed_name e (?seeds ! j)"
        by (auto simp: in_set_conv_nth)
      then show "node_at f' (rc @ [x]) \<noteq> None" using tg by simp
    qed
    have "os_read_dir e f' ''data/community'' = Inr (sort (map (seed_name e) ?seeds))"
      using read_dir_children [OF op d ch dn] .
    with d tg show ?thesis by blast
  qed
  have A: "\<forall>names. os_read_dir e f ''data/community'' = Inr names \<and> names \<noteq> [] \<longrightarrow>
            InitializeIfEmpty e clock f configPath = (f, None)"
    using InitializeIfEmpty_nonempty by blast
  show ?thesis
    using A B unfolding er seed_topic_def by blast
qed

theorem InitializeIfEmpty_spec_witness:
  "fs_ok (fs_cfg cfg_two) \<and> fs_ok fs_two \<and>
   Abs env0 ''data/community'' = Inr ''/srv/data/community'' \<and>
   os_read_dir env0 (fs_cfg cfg_two) ''data/community'' = Inl ENOENT \<and>
   InitializeIfEmpty env0 clock0 (fs_cfg cfg_two) ''data/config.json'' = (fs_seeded, None) \<and>
   os_read_dir env0 fs_seeded ''data/community'' =
     Inr (sort [''free_will.json'', ''what_is_truth.json'']) \<and>
   os_read_dir env0 fs_two ''data/community'' = Inr [''bad.json'', ''good.json''] \<and>
   InitializeIfEmpty env0 clock0 fs_two ''data/config.json'' = (fs_two, None)"
proof -
  have ok: "fs_ok (fs_cfg cfg_two)" by code_simp
  have ok2: "fs_ok fs_two" by code_simp
  have a: "Abs env0 ''data/community'' = Inr ''/srv/data/community''" by code_simp
  have r: "os_read_dir env0 (fs_cfg cfg_two) ''data/community'' = Inl ENOENT" by code_simp
  have lc: "loadConfig env0 (fs_cfg cfg_two) ''data/config.json'' = Inr cfg_two" by code_simp
  have run: "InitializeIfEmpty env0 clock0 (fs_cfg cfg_two) ''data/config.json'' = (fs_seeded, None)"
    by code_simp
  have nm: "map (seed_name env0) (SeedTopics cfg_two) = [''free_will.json'', ''what_is_truth.json'']"
    by code_simp
  have dn: "distinct (map (seed_name env0) (SeedTopics cfg_two))" unfolding nm by simp
  have ns: "\<forall>s\<in>set (SeedTopics cfg_two). Separator \<notin> set (seed_name env0 s)" by code_simp
  have "os_read_dir env0 fs_seeded ''data/community'' =
      Inr (sort (map (seed_name env0) (SeedTopics cfg_two)))"
    using InitializeIfEmpty_spec [OF ok a, of clock0 "''data/config.json''"] r lc run dn ns
    by blast
  then have s: "os_read_dir env0 fs_seeded ''data/community'' =
      Inr (sort [''free_will.json'', ''what_is_truth.json''])"
    unfolding nm .
  have r2: "os_read_dir env0 fs_two ''data/community'' = Inr [''bad.json'', ''good.json'']"
    by code_simp
  have "[''bad.json'', ''good.json''] \<noteq> ([] :: string list)" by simp
  then have n2: "InitializeIfEmpty env0 clock0 fs_two ''data/config.json'' = (fs_two, None)"
    using InitializeIfEmpty_spec [OF ok2 a, of clock0 "''data/config.json''"] r2 by blast
  from ok ok2 a r run s r2 n2 show ?thesis by blast
qed

text \<open>
  Two seed topics whose titles generate the same name leave one file: the seed list
  \<open>Welcome\<close>, \<open>welcome\<close> seeds the single file \<open>welcome.json\<close>, which holds the second
  entry.
\<close>

theorem InitializeIfEmpty_colliding_seeds:
  "length (SeedTopics cfg_dup) = 2 \<and>
   os_read_dir env0 (fs_cfg cfg_dup) ''data/community'' = Inl ENOENT \<and>
   loadConfig env0 (fs_cfg cfg_dup) ''data/config.json'' = Inr cfg_dup \<and>
   InitializeIfEmpty env0 clock0 (fs_cfg cfg_dup) ''data/config.json'' = (fs_dup_seeded, None) \<and>
   os_read_dir env0 fs_dup_seeded ''data/community'' = Inr [''welcome.json''] \<and>
   LoadTopics env0 fs_dup_seeded ''data/community'' =
     Inr [(seed_topic ''2024-01-01T00:00:00Z'' (seed0 ''welcome''))\<lparr>Filename := ''welcome.json''\<rparr>]"
  by code_simp

end
